theory Spec2Isabelle
  imports Main "HOL-Library.Code_Target_Nat"
begin

section \<open>The streaming chat client of \<open>src/lib/cloud-api.ts\<close>\<close>

text \<open>
  The development embeds \<open>safeToISOString\<close> and \<open>sendMessage\<close> of
  \<open>src/lib/cloud-api.ts\<close>. Everything the two functions do is a value here: the
  callbacks that run are a list of events, an exception that leaves \<open>sendMessage\<close> is
  the \<open>Rejected\<close> outcome of its promise, and the response is a status code with the
  list of texts that the reader and \<open>decoder.decode(value, {stream: true})\<close> deliver,
  read after read.

  The JavaScript built-ins that the source calls are written out from ECMA-262 and
  ECMA-404 as far as the source depends on them: \<open>String.prototype.split\<close>,
  \<open>trim\<close>, \<open>startsWith\<close>, \<open>slice\<close>, truthiness, property reads on the values
  that \<open>JSON.parse\<close> returns, \<open>JSON.parse\<close> itself, and the UTC part of \<open>Date\<close>.
  What ECMA-262 leaves to the implementation (the present time, and \<open>new Date(v)\<close>
  for a \<open>v\<close> outside the interchange format) is a parameter, the record \<open>host\<close>.
\<close>

subsection \<open>Strings\<close>

text \<open>
  A JavaScript string is a sequence of UTF-16 code units; a code unit is a \<open>nat\<close>
  here. \<open>js\<close> turns an ASCII literal into such a sequence.
\<close>

type_synonym jsstring = "nat list"

definition js :: "string \<Rightarrow> jsstring" where
  "js s = map of_char s"

text \<open>\<open>s.startsWith(p)\<close> and \<open>s.slice(n)\<close> for \<open>0 \<le> n\<close>.\<close>

definition startsWith :: "jsstring \<Rightarrow> jsstring \<Rightarrow> bool" where
  "startsWith p s = (take (length p) s = p)"

definition slice :: "nat \<Rightarrow> jsstring \<Rightarrow> jsstring" where
  "slice n s = drop n s"

text \<open>
  \<open>s.split(sep)\<close> for a non-empty separator (both call sites pass a literal): the
  occurrences of \<open>sep\<close> are found from the left and do not overlap; the result always
  has at least one segment, and \<open>"".split(sep)\<close> is \<open>[""]\<close>.
\<close>

fun split :: "jsstring \<Rightarrow> jsstring \<Rightarrow> jsstring list" where
  "split sep [] = [[]]"
| "split sep (c # cs) =
     (if sep \<noteq> [] \<and> startsWith sep (c # cs)
      then [] # split sep (drop (length sep) (c # cs))
      else (case split sep cs of [] \<Rightarrow> [[c]] | s # ss \<Rightarrow> (c # s) # ss))"

text \<open>
  \<open>s.trim()\<close> removes the code units of WhiteSpace and LineTerminator
  (ECMA-262, 12.2 and 12.3) from both ends.
\<close>

definition is_space :: "nat \<Rightarrow> bool" where
  "is_space c =
     (c = 9 \<or> c = 10 \<or> c = 11 \<or> c = 12 \<or> c = 13 \<or> c = 32 \<or> c = 160 \<or> c = 5760
      \<or> (8192 \<le> c \<and> c \<le> 8202) \<or> c = 8232 \<or> c = 8233 \<or> c = 8239 \<or> c = 8287
      \<or> c = 12288 \<or> c = 65279)"

definition trim :: "jsstring \<Rightarrow> jsstring" where
  "trim s = rev (dropWhile is_space (rev (dropWhile is_space s)))"

text \<open>The decimal digits of an integer, as a template literal prints a safe integer.\<close>

function show_digits :: "int \<Rightarrow> jsstring" where
  "show_digits n =
     (if n < 10 then [48 + nat n] else show_digits (n div 10) @ [48 + nat (n mod 10)])"
  by pat_completeness auto
termination
  by (relation "measure nat") auto

declare show_digits.simps [simp del]

definition show_int :: "int \<Rightarrow> jsstring" where
  "show_int i = (if i < 0 then js ''-'' @ show_digits (- i) else show_digits i)"

subsection \<open>Values\<close>

text \<open>
  The values that \<open>JSON.parse\<close> returns, and \<open>undefined\<close>, which a read of a
  missing property gives. \<open>Num m e\<close> is the number written \<open>m \<times> 10\<^sup>e\<close> in the text.
  An object keeps its members in the order of the text, duplicates included; a read
  takes the last one, as \<open>JSON.parse\<close> lets a later member overwrite an earlier one.
\<close>

datatype jsval =
    Undefined
  | Null
  | Bool bool
  | Num int int
  | Str jsstring
  | Arr "jsval list"
  | Obj "(jsstring \<times> jsval) list"

text \<open>
  \<open>ToBoolean\<close>. A number is falsy when it is zero as a double: the decimal
  \<open>m \<times> 10\<^sup>e\<close> rounds to zero exactly when its magnitude is at most \<open>2\<^sup>-\<^sup>1\<^sup>0\<^sup>7\<^sup>5\<close>,
  half of the least positive double.
\<close>

definition rounds_to_zero :: "int \<Rightarrow> int \<Rightarrow> bool" where
  "rounds_to_zero m e =
     (m = 0 \<or> (e < 0 \<and> \<bar>m\<bar> * 2 ^ 1075 \<le> 10 ^ nat (- e)))"

fun truthy :: "jsval \<Rightarrow> bool" where
  "truthy Undefined = False"
| "truthy Null = False"
| "truthy (Bool b) = b"
| "truthy (Num m e) = (\<not> rounds_to_zero m e)"
| "truthy (Str s) = (s \<noteq> [])"
| "truthy (Arr xs) = True"
| "truthy (Obj kvs) = True"

text \<open>
  \<open>v.k\<close> for a value \<open>v\<close> that is neither \<open>null\<close> nor \<open>undefined\<close>, and for the
  property names that the source reads (\<open>type\<close>, \<open>isAgent\<close>, \<open>id\<close>, \<open>content\<close>,
  \<open>text\<close>, \<open>attachments\<close>, \<open>createdAt\<close>, \<open>url\<close>, \<open>title\<close>, \<open>contentType\<close>,
  \<open>message\<close>, \<open>error\<close>): none of them is on a prototype, so the read finds an own
  member of an object or nothing. The read of a property of \<open>null\<close> throws a
  TypeError; the callers below test for it before they use \<open>get\<close>.
\<close>

fun get :: "jsval \<Rightarrow> jsstring \<Rightarrow> jsval" where
  "get (Obj kvs) k = (case map_of (rev kvs) k of None \<Rightarrow> Undefined | Some v \<Rightarrow> v)"
| "get v k = Undefined"

definition nullish :: "jsval \<Rightarrow> bool" where
  "nullish v = (v = Null \<or> v = Undefined)"

text \<open>\<open>v?.k\<close>\<close>

definition opt_prop :: "jsval \<Rightarrow> jsstring \<Rightarrow> jsval" where
  "opt_prop v k = (if nullish v then Undefined else get v k)"

text \<open>\<open>a || b\<close>\<close>

definition or_else :: "jsval \<Rightarrow> jsval \<Rightarrow> jsval" where
  "or_else a b = (if truthy a then a else b)"

subsection \<open>\<open>JSON.parse\<close>\<close>

text \<open>
  The grammar of ECMA-404, in two passes: the text becomes tokens, and a pushdown
  automaton reads the tokens. \<open>None\<close> is the SyntaxError that \<open>JSON.parse\<close> throws.
\<close>

datatype token =
    TLBrace | TRBrace | TLBrack | TRBrack | TColon | TComma
  | TStr jsstring | TNum int int | TTrue | TFalse | TNull

definition is_digit :: "nat \<Rightarrow> bool" where
  "is_digit c = (48 \<le> c \<and> c \<le> 57)"

definition hex_val :: "nat \<Rightarrow> nat option" where
  "hex_val c =
     (if 48 \<le> c \<and> c \<le> 57 then Some (c - 48)
      else if 65 \<le> c \<and> c \<le> 70 then Some (c - 55)
      else if 97 \<le> c \<and> c \<le> 102 then Some (c - 87)
      else None)"

fun hex4 :: "jsstring \<Rightarrow> nat option" where
  "hex4 [a, b, c, d] =
     (case (hex_val a, hex_val b, hex_val c, hex_val d) of
        (Some x, Some y, Some z, Some w) \<Rightarrow> Some (((x * 16 + y) * 16 + z) * 16 + w)
      | _ \<Rightarrow> None)"
| "hex4 _ = None"

text \<open>The character after a backslash: \<open>" \ / b f n r t\<close>.\<close>

definition unescape :: "nat \<Rightarrow> nat option" where
  "unescape c =
     (if c = 34 then Some 34
      else if c = 92 then Some 92
      else if c = 47 then Some 47
      else if c = 98 then Some 8
      else if c = 102 then Some 12
      else if c = 110 then Some 10
      else if c = 114 then Some 13
      else if c = 116 then Some 9
      else None)"

text \<open>
  The body of a string after its opening quote: up to the closing quote, no code unit
  below \<open>0x20\<close>, escapes decoded. The result is the string and the text after it.
\<close>

fun lex_string :: "jsstring \<Rightarrow> jsstring \<Rightarrow> (jsstring \<times> jsstring) option" where
  "lex_string acc [] = None"
| "lex_string acc (c # cs) =
     (if c = 34 then Some (rev acc, cs)
      else if c < 32 then None
      else if c = 92 then
        (case cs of
           [] \<Rightarrow> None
         | e # es \<Rightarrow>
             if e = 117 then
               (case hex4 (take 4 es) of
                  None \<Rightarrow> None
                | Some u \<Rightarrow> lex_string (u # acc) (drop 4 es))
             else
               (case unescape e of
                  None \<Rightarrow> None
                | Some u \<Rightarrow> lex_string (u # acc) es))
      else lex_string (c # acc) cs)"

fun digits_val :: "int \<Rightarrow> jsstring \<Rightarrow> int" where
  "digits_val acc [] = acc"
| "digits_val acc (c # cs) = digits_val (acc * 10 + int (c - 48)) cs"

text \<open>
  A number is \<open>-? int frac? exp?\<close>, where \<open>int\<close> is \<open>0\<close> or starts with a digit
  from 1 to 9, \<open>frac\<close> is a point and at least one digit, and \<open>exp\<close> is \<open>e\<close> or
  \<open>E\<close>, an optional sign and at least one digit.
\<close>

definition lex_frac :: "jsstring \<Rightarrow> (jsstring \<times> jsstring) option" where
  "lex_frac s =
     (case s of
        [] \<Rightarrow> Some ([], s)
      | c # r \<Rightarrow>
          if c = 46 then
            (if takeWhile is_digit r = [] then None
             else Some (takeWhile is_digit r, dropWhile is_digit r))
          else Some ([], s))"

definition lex_exp_digits :: "bool \<Rightarrow> jsstring \<Rightarrow> (int \<times> jsstring) option" where
  "lex_exp_digits neg s =
     (if takeWhile is_digit s = [] then None
      else Some ((if neg then - digits_val 0 (takeWhile is_digit s)
                  else digits_val 0 (takeWhile is_digit s)),
                 dropWhile is_digit s))"

definition lex_exp :: "jsstring \<Rightarrow> (int \<times> jsstring) option" where
  "lex_exp s =
     (case s of
        [] \<Rightarrow> Some (0, s)
      | c # r \<Rightarrow>
          if c = 101 \<or> c = 69 then
            (case r of
               [] \<Rightarrow> None
             | g # r' \<Rightarrow>
                 if g = 45 then lex_exp_digits True r'
                 else if g = 43 then lex_exp_digits False r'
                 else lex_exp_digits False r)
          else Some (0, s))"

definition lex_unsigned :: "jsstring \<Rightarrow> ((int \<times> int) \<times> jsstring) option" where
  "lex_unsigned s =
     (let ip = takeWhile is_digit s in
      if ip = [] \<or> (hd ip = 48 \<and> length ip > 1) then None
      else
        (case lex_frac (dropWhile is_digit s) of
           None \<Rightarrow> None
         | Some (fp, s') \<Rightarrow>
             (case lex_exp s' of
                None \<Rightarrow> None
              | Some (ex, s'') \<Rightarrow>
                  Some ((digits_val 0 (ip @ fp), ex - int (length fp)), s''))))"

definition lex_number :: "jsstring \<Rightarrow> (token \<times> jsstring) option" where
  "lex_number s =
     (case s of
        [] \<Rightarrow> None
      | c # r \<Rightarrow>
          if c = 45 then
            (case lex_unsigned r of
               None \<Rightarrow> None
             | Some ((m, e), rest) \<Rightarrow> Some (TNum (- m) e, rest))
          else
            (case lex_unsigned s of
               None \<Rightarrow> None
             | Some ((m, e), rest) \<Rightarrow> Some (TNum m e, rest)))"

lemma lex_string_shorter:
  "lex_string acc cs = Some (s, rest) \<Longrightarrow> length rest < length cs"
proof (induction acc cs rule: lex_string.induct)
  case (1 acc)
  then show ?case by simp
next
  case (2 acc c cs)
  show ?case
  proof (cases "c = 34")
    case True
    with "2.prems" show ?thesis by simp
  next
    case c34: False
    show ?thesis
    proof (cases "c = 92")
      case False
      with c34 "2.prems" have "lex_string (c # acc) cs = Some (s, rest)"
        by (simp split: if_splits)
      with "2.IH"(3) c34 False "2.prems" show ?thesis
        by (fastforce split: if_splits)
    next
      case True
      then have c32: "\<not> c < 32" by simp
      from True obtain e es where cs: "cs = e # es"
        using "2.prems" c34 by (cases cs) (auto split: if_splits)
      show ?thesis
      proof (cases "e = 117")
        case e: True
        then obtain u where u: "hex4 (take 4 es) = Some u"
          and r: "lex_string (u # acc) (drop 4 es) = Some (s, rest)"
          using "2.prems" c34 True cs by (auto split: if_splits option.splits)
        have "length rest < length (drop 4 es)"
          using "2.IH"(1)[OF c34 c32 True cs e u r] by simp
        then show ?thesis using cs by simp
      next
        case e: False
        then obtain u where u: "unescape e = Some u"
          and r: "lex_string (u # acc) es = Some (s, rest)"
          using "2.prems" c34 True cs by (auto split: if_splits option.splits)
        have "length rest < length es"
          using "2.IH"(2)[OF c34 c32 True cs e u r] by simp
        then show ?thesis using cs by simp
      qed
    qed
  qed
qed

lemma dropWhile_le: "length (dropWhile P xs) \<le> length xs"
  by (induction xs) auto

lemma takeWhile_dropWhile_shorter:
  "takeWhile P xs \<noteq> [] \<Longrightarrow> length (dropWhile P xs) < length xs"
  by (induction xs) (auto simp: le_imp_less_Suc dropWhile_le split: if_splits)

lemma lex_frac_shorter: "lex_frac s = Some (fp, rest) \<Longrightarrow> length rest \<le> length s"
  using dropWhile_le[of is_digit "tl s"]
  by (auto simp: lex_frac_def split: list.splits if_splits)

lemma lex_exp_digits_shorter:
  "lex_exp_digits b s = Some (e, rest) \<Longrightarrow> length rest \<le> length s"
  using dropWhile_le[of is_digit s]
  by (auto simp: lex_exp_digits_def split: if_splits)

lemma lex_exp_shorter: "lex_exp s = Some (e, rest) \<Longrightarrow> length rest \<le> length s"
  by (auto simp: lex_exp_def split: list.splits if_splits dest!: lex_exp_digits_shorter)

lemma lex_unsigned_shorter:
  assumes "lex_unsigned s = Some (me, rest)"
  shows "length rest < length s"
proof -
  from assms have ip: "takeWhile is_digit s \<noteq> []"
    by (auto simp: lex_unsigned_def Let_def split: if_splits)
  from assms ip obtain fp s' ex where f: "lex_frac (dropWhile is_digit s) = Some (fp, s')"
    and e: "lex_exp s' = Some (ex, rest)"
    by (auto simp: lex_unsigned_def Let_def split: if_splits option.splits)
  from ip have "length (dropWhile is_digit s) < length s"
    by (rule takeWhile_dropWhile_shorter)
  with lex_frac_shorter[OF f] lex_exp_shorter[OF e] show ?thesis by simp
qed

lemma lex_number_shorter:
  "lex_number cs = Some (t, rest) \<Longrightarrow> length rest < length cs"
  by (auto simp: lex_number_def split: list.splits if_splits option.splits
           dest!: lex_unsigned_shorter)

text \<open>Whitespace between tokens is space, tab, line feed and carriage return.\<close>

function tokenize :: "jsstring \<Rightarrow> token list option" where
  "tokenize [] = Some []"
| "tokenize (c # cs) =
     (if c = 32 \<or> c = 9 \<or> c = 10 \<or> c = 13 then tokenize cs
      else if c = 123 then map_option ((#) TLBrace) (tokenize cs)
      else if c = 125 then map_option ((#) TRBrace) (tokenize cs)
      else if c = 91 then map_option ((#) TLBrack) (tokenize cs)
      else if c = 93 then map_option ((#) TRBrack) (tokenize cs)
      else if c = 58 then map_option ((#) TColon) (tokenize cs)
      else if c = 44 then map_option ((#) TComma) (tokenize cs)
      else if c = 34 then
        (case lex_string [] cs of
           None \<Rightarrow> None
         | Some (s, rest) \<Rightarrow> map_option ((#) (TStr s)) (tokenize rest))
      else if take 4 (c # cs) = js ''true'' then map_option ((#) TTrue) (tokenize (drop 3 cs))
      else if take 5 (c # cs) = js ''false'' then map_option ((#) TFalse) (tokenize (drop 4 cs))
      else if take 4 (c # cs) = js ''null'' then map_option ((#) TNull) (tokenize (drop 3 cs))
      else
        (case lex_number (c # cs) of
           None \<Rightarrow> None
         | Some (t, rest) \<Rightarrow> map_option ((#) t) (tokenize rest)))"
  by pat_completeness auto
termination
  by (relation "measure length") (auto dest: lex_string_shorter lex_number_shorter)

text \<open>
  The automaton. A frame is an array or an object that is still open: the elements
  or members read so far, newest first, and for an object the key whose value is being
  read. The state says what may come next.
\<close>

datatype frame =
    FArr "jsval list"
  | FObj "(jsstring \<times> jsval) list" jsstring

datatype pstate =
    PValue "frame list"
  | PArrStart "frame list"
  | PArrNext "jsval list" "frame list"
  | PObjStart "frame list"
  | PObjKey "(jsstring \<times> jsval) list" "frame list"
  | PObjColon "(jsstring \<times> jsval) list" jsstring "frame list"
  | PObjNext "(jsstring \<times> jsval) list" "frame list"
  | PDone jsval

fun complete :: "frame list \<Rightarrow> jsval \<Rightarrow> pstate" where
  "complete [] v = PDone v"
| "complete (FArr els # st) v = PArrNext (v # els) st"
| "complete (FObj mem k # st) v = PObjNext ((k, v) # mem) st"

fun value_token :: "frame list \<Rightarrow> token \<Rightarrow> pstate option" where
  "value_token st (TStr s) = Some (complete st (Str s))"
| "value_token st (TNum m e) = Some (complete st (Num m e))"
| "value_token st TTrue = Some (complete st (Bool True))"
| "value_token st TFalse = Some (complete st (Bool False))"
| "value_token st TNull = Some (complete st Null)"
| "value_token st TLBrack = Some (PArrStart st)"
| "value_token st TLBrace = Some (PObjStart st)"
| "value_token st _ = None"

fun pstep :: "pstate \<Rightarrow> token \<Rightarrow> pstate option" where
  "pstep (PValue st) t = value_token st t"
| "pstep (PArrStart st) t =
     (if t = TRBrack then Some (complete st (Arr [])) else value_token (FArr [] # st) t)"
| "pstep (PArrNext els st) t =
     (if t = TComma then Some (PValue (FArr els # st))
      else if t = TRBrack then Some (complete st (Arr (rev els)))
      else None)"
| "pstep (PObjStart st) t =
     (case t of
        TRBrace \<Rightarrow> Some (complete st (Obj []))
      | TStr k \<Rightarrow> Some (PObjColon [] k st)
      | _ \<Rightarrow> None)"
| "pstep (PObjKey mem st) t =
     (case t of TStr k \<Rightarrow> Some (PObjColon mem k st) | _ \<Rightarrow> None)"
| "pstep (PObjColon mem k st) t =
     (if t = TColon then Some (PValue (FObj mem k # st)) else None)"
| "pstep (PObjNext mem st) t =
     (if t = TComma then Some (PObjKey mem st)
      else if t = TRBrace then Some (complete st (Obj (rev mem)))
      else None)"
| "pstep (PDone v) t = None"

fun prun :: "pstate \<Rightarrow> token list \<Rightarrow> pstate option" where
  "prun st [] = Some st"
| "prun st (t # ts) = (case pstep st t of None \<Rightarrow> None | Some st' \<Rightarrow> prun st' ts)"

definition JSON_parse :: "jsstring \<Rightarrow> jsval option" where
  "JSON_parse s =
     (case tokenize s of
        None \<Rightarrow> None
      | Some ts \<Rightarrow>
          (case prun (PValue []) ts of
             Some (PDone v) \<Rightarrow> Some v
           | _ \<Rightarrow> None))"

subsection \<open>\<open>Date\<close>\<close>

text \<open>
  A time value is a number of milliseconds since the epoch, at most \<open>8.64 \<times> 10\<^sup>1\<^sup>5\<close>
  in magnitude; \<open>None\<close> is the time value \<open>NaN\<close> of an invalid date
  (ECMA-262, 21.4.1). The calendar is the proleptic Gregorian one, in UTC.
\<close>

definition valid_time :: "int \<Rightarrow> bool" where
  "valid_time t = (\<bar>t\<bar> \<le> 8640000000000000)"

definition TimeClip :: "int \<Rightarrow> int option" where
  "TimeClip t = (if valid_time t then Some t else None)"

text \<open>
  Days and years (ECMA-262, 21.4.1.3 to 21.4.1.11). \<open>YearFromDay\<close> computes the
  year that the standard defines as the largest \<open>y\<close> with \<open>DayFromYear y\<close> not after
  the day: it counts the cycles of 400, 100, 4 and 1 years from the first of January
  1601, which is day \<open>-134774\<close>.
\<close>

definition Day :: "int \<Rightarrow> int" where
  "Day t = t div 86400000"

definition DaysInYear :: "int \<Rightarrow> int" where
  "DaysInYear y =
     (if y mod 4 \<noteq> 0 then 365
      else if y mod 100 \<noteq> 0 then 366
      else if y mod 400 \<noteq> 0 then 365
      else 366)"

definition DayFromYear :: "int \<Rightarrow> int" where
  "DayFromYear y =
     365 * (y - 1970) + (y - 1969) div 4 - (y - 1901) div 100 + (y - 1601) div 400"

definition centuries :: "int \<Rightarrow> int" where
  "centuries r = min 3 (r div 36524)"

definition years4 :: "int \<Rightarrow> int" where
  "years4 r = (r - 36524 * centuries r) div 1461"

definition years1 :: "int \<Rightarrow> int" where
  "years1 r = min 3 ((r - 36524 * centuries r) mod 1461 div 365)"

definition YearFromDay :: "int \<Rightarrow> int" where
  "YearFromDay d =
     1601 + 400 * ((d + 134774) div 146097)
       + 100 * centuries ((d + 134774) mod 146097)
       + 4 * years4 ((d + 134774) mod 146097)
       + years1 ((d + 134774) mod 146097)"

definition YearFromTime :: "int \<Rightarrow> int" where
  "YearFromTime t = YearFromDay (Day t)"

definition DayWithinYear :: "int \<Rightarrow> int" where
  "DayWithinYear t = Day t - DayFromYear (YearFromTime t)"

definition InLeapYear :: "int \<Rightarrow> int" where
  "InLeapYear y = (if DaysInYear y = 366 then 1 else 0)"

text \<open>
  The first day of month \<open>m\<close> (0 for January) within a year, \<open>L\<close> being 1 in a leap
  year, and the month and the date of a day of the year (21.4.1.11 and 21.4.1.12).
\<close>

definition MonthStart :: "int \<Rightarrow> int \<Rightarrow> int" where
  "MonthStart L m =
     (if m \<le> 0 then 0
      else if m = 1 then 31
      else if m = 2 then 59 + L
      else if m = 3 then 90 + L
      else if m = 4 then 120 + L
      else if m = 5 then 151 + L
      else if m = 6 then 181 + L
      else if m = 7 then 212 + L
      else if m = 8 then 243 + L
      else if m = 9 then 273 + L
      else if m = 10 then 304 + L
      else if m = 11 then 334 + L
      else 365 + L)"

definition MonthFromDay :: "int \<Rightarrow> int \<Rightarrow> int" where
  "MonthFromDay L d =
     (if d < 31 then 0
      else if d < 59 + L then 1
      else if d < 90 + L then 2
      else if d < 120 + L then 3
      else if d < 151 + L then 4
      else if d < 181 + L then 5
      else if d < 212 + L then 6
      else if d < 243 + L then 7
      else if d < 273 + L then 8
      else if d < 304 + L then 9
      else if d < 334 + L then 10
      else 11)"

definition MonthFromTime :: "int \<Rightarrow> int" where
  "MonthFromTime t = MonthFromDay (InLeapYear (YearFromTime t)) (DayWithinYear t)"

definition DateFromTime :: "int \<Rightarrow> int" where
  "DateFromTime t =
     DayWithinYear t - MonthStart (InLeapYear (YearFromTime t)) (MonthFromTime t) + 1"

definition HourFromTime :: "int \<Rightarrow> int" where
  "HourFromTime t = t div 3600000 mod 24"

definition MinFromTime :: "int \<Rightarrow> int" where
  "MinFromTime t = t div 60000 mod 60"

definition SecFromTime :: "int \<Rightarrow> int" where
  "SecFromTime t = t div 1000 mod 60"

definition msFromTime :: "int \<Rightarrow> int" where
  "msFromTime t = t mod 1000"

text \<open>\<open>MakeDay\<close> and \<open>MakeTime\<close> for a month from 1 to 12 and fields in range.\<close>

definition DaysInMonth :: "int \<Rightarrow> int \<Rightarrow> int" where
  "DaysInMonth y m = MonthStart (InLeapYear y) m - MonthStart (InLeapYear y) (m - 1)"

definition MakeDay :: "int \<Rightarrow> int \<Rightarrow> int \<Rightarrow> int" where
  "MakeDay y m d = DayFromYear y + MonthStart (InLeapYear y) (m - 1) + d - 1"

definition MakeDate :: "int \<Rightarrow> int \<Rightarrow> int \<Rightarrow> int \<Rightarrow> int \<Rightarrow> int" where
  "MakeDate day hh mi ss ms = day * 86400000 + hh * 3600000 + mi * 60000 + ss * 1000 + ms"

text \<open>A field of decimal digits.\<close>

definition digits :: "jsstring \<Rightarrow> int option" where
  "digits s = (if s \<noteq> [] \<and> list_all is_digit s then Some (digits_val 0 s) else None)"

text \<open>
  \<open>Date.parse\<close> on the UTC date-time forms of the interchange format (ECMA-262,
  21.4.1.32): \<open>YYYY-MM-DDTHH:mm:ssZ\<close> and \<open>YYYY-MM-DDTHH:mm:ss.sssZ\<close>, the year
  also as a sign and six digits (not \<open>-000000\<close>), with every field in its range. Any
  other string is not decided here: it goes to the host.
\<close>

definition parse_year :: "jsstring \<Rightarrow> (int \<times> jsstring) option" where
  "parse_year s =
     (if take 1 s = js ''+'' then
        (case digits (take 6 (drop 1 s)) of None \<Rightarrow> None | Some y \<Rightarrow> Some (y, drop 7 s))
      else if take 1 s = js ''-'' then
        (case digits (take 6 (drop 1 s)) of
           None \<Rightarrow> None
         | Some y \<Rightarrow> if y = 0 then None else Some (- y, drop 7 s))
      else
        (case digits (take 4 s) of None \<Rightarrow> None | Some y \<Rightarrow> Some (y, drop 4 s)))"

definition parse_fraction :: "jsstring \<Rightarrow> int option" where
  "parse_fraction s =
     (if s = js ''Z'' then Some 0
      else if length s = 5 \<and> take 1 s = js ''.'' \<and> drop 4 s = js ''Z''
      then digits (take 3 (drop 1 s))
      else None)"

definition parse_fields :: "int \<Rightarrow> jsstring \<Rightarrow> int option" where
  "parse_fields y s =
     (if take 1 s = js ''-'' \<and> take 1 (drop 3 s) = js ''-'' \<and> take 1 (drop 6 s) = js ''T''
         \<and> take 1 (drop 9 s) = js '':'' \<and> take 1 (drop 12 s) = js '':''
      then
        (case (digits (take 2 (drop 1 s)), digits (take 2 (drop 4 s)),
               digits (take 2 (drop 7 s)), digits (take 2 (drop 10 s)),
               digits (take 2 (drop 13 s)), parse_fraction (drop 15 s)) of
           (Some mo, Some d, Some hh, Some mi, Some ss, Some ms) \<Rightarrow>
             if 1 \<le> mo \<and> mo \<le> 12 \<and> 1 \<le> d \<and> d \<le> DaysInMonth y mo
                \<and> hh \<le> 23 \<and> mi \<le> 59 \<and> ss \<le> 59
             then Some (MakeDate (MakeDay y mo d) hh mi ss ms)
             else None
         | _ \<Rightarrow> None)
      else None)"

definition parse_iso :: "jsstring \<Rightarrow> int option" where
  "parse_iso s =
     (case parse_year s of
        None \<Rightarrow> None
      | Some (y, rest) \<Rightarrow> parse_fields y rest)"

text \<open>
  \<open>Date.prototype.toISOString\<close> of a valid date: \<open>YYYY-MM-DDTHH:mm:ss.sssZ\<close>, the
  year with a sign and six digits when it is outside 0 to 9999.
\<close>

definition pad2 :: "int \<Rightarrow> jsstring" where
  "pad2 n = [48 + nat (n div 10 mod 10), 48 + nat (n mod 10)]"

definition pad3 :: "int \<Rightarrow> jsstring" where
  "pad3 n = [48 + nat (n div 100 mod 10), 48 + nat (n div 10 mod 10), 48 + nat (n mod 10)]"

definition pad4 :: "int \<Rightarrow> jsstring" where
  "pad4 n = [48 + nat (n div 1000 mod 10)] @ pad3 n"

definition pad6 :: "int \<Rightarrow> jsstring" where
  "pad6 n = [48 + nat (n div 100000 mod 10), 48 + nat (n div 10000 mod 10)] @ pad4 n"

definition year_string :: "int \<Rightarrow> jsstring" where
  "year_string y =
     (if 0 \<le> y \<and> y \<le> 9999 then pad4 y
      else if y < 0 then js ''-'' @ pad6 (- y)
      else js ''+'' @ pad6 y)"

definition toISOString :: "int \<Rightarrow> jsstring" where
  "toISOString t =
     year_string (YearFromTime t) @ js ''-'' @ pad2 (MonthFromTime t + 1) @ js ''-''
     @ pad2 (DateFromTime t) @ js ''T'' @ pad2 (HourFromTime t) @ js '':''
     @ pad2 (MinFromTime t) @ js '':'' @ pad2 (SecFromTime t) @ js ''.''
     @ pad3 (msFromTime t) @ js ''Z''"

text \<open>
  What is not worked out here is a parameter: the present time (\<open>Date.now()\<close>,
  \<open>new Date()\<close>), one value for the whole call; \<open>new Date(v)\<close> where ECMA-262
  leaves the result to the implementation, which either throws or makes a date; and
  the digits that \<open>Number::toString\<close> prints for the number \<open>m \<times> 10\<^sup>e\<close>.
\<close>

datatype date_result = Threw | Time "int option"

record host =
  now :: int
  hostDate :: "jsval \<Rightarrow> date_result"
  numberToString :: "int \<Rightarrow> int \<Rightarrow> jsstring"

definition clip :: "date_result \<Rightarrow> date_result" where
  "clip r = (case r of Threw \<Rightarrow> Threw | Time None \<Rightarrow> Time None | Time (Some t) \<Rightarrow> Time (TimeClip t))"

text \<open>
  \<open>new Date(v)\<close>. A string is parsed. A number written without a fraction is an
  integer, which a double holds exactly within the range of time values. A boolean
  and \<open>null\<close> become 1 or 0, \<open>undefined\<close> becomes \<open>NaN\<close>. An object is converted
  to a primitive first: an own member \<open>toString\<close> is not callable, the inherited
  \<open>valueOf\<close> returns the object, so the conversion throws a TypeError. Everything else
  is the host's.
\<close>

definition new_Date :: "host \<Rightarrow> jsval \<Rightarrow> date_result" where
  "new_Date h v =
     (case v of
        Undefined \<Rightarrow> Time None
      | Null \<Rightarrow> Time (Some 0)
      | Bool b \<Rightarrow> Time (Some (if b then 1 else 0))
      | Num m e \<Rightarrow> if 0 \<le> e then Time (TimeClip (m * 10 ^ nat e)) else clip (hostDate h v)
      | Str s \<Rightarrow>
          (case parse_iso s of
             Some t \<Rightarrow> Time (TimeClip t)
           | None \<Rightarrow> clip (hostDate h v))
      | Arr xs \<Rightarrow> clip (hostDate h v)
      | Obj kvs \<Rightarrow>
          if map_of kvs (js ''toString'') \<noteq> None then Threw else clip (hostDate h v))"

subsection \<open>\<open>safeToISOString\<close>\<close>

text \<open>
  Lines 39 to 53. \<open>!value\<close> returns the present time; so do the \<open>catch\<close> and an
  invalid date (\<open>isNaN(date.getTime())\<close>).
\<close>

definition safeToISOString :: "host \<Rightarrow> jsval \<Rightarrow> jsstring" where
  "safeToISOString h v =
     (if \<not> truthy v then toISOString (now h)
      else
        (case new_Date h v of
           Threw \<Rightarrow> toISOString (now h)
         | Time None \<Rightarrow> toISOString (now h)
         | Time (Some t) \<Rightarrow> toISOString t))"

subsection \<open>Messages, callbacks and errors\<close>

text \<open>
  \<open>MessageAttachment\<close> and \<open>Message\<close> of the type definitions. The fields hold
  what the source stores in them, which is whatever the payload had: TypeScript's
  \<open>string\<close> is not checked at run time. \<open>msg_attachments\<close> is \<open>None\<close> for
  \<open>undefined\<close>.
\<close>

record attachment =
  att_id :: jsval
  att_url :: jsval
  att_title :: jsval
  att_contentType :: jsval

datatype role = User | Assistant

record message =
  msg_id :: jsval
  msg_content :: jsval
  msg_role :: role
  msg_createdAt :: jsstring
  msg_attachments :: "attachment list option"

record usage =
  tokens :: nat
  cost :: nat

text \<open>
  One event for each handler of \<open>StreamCallbacks\<close>, with the arguments of the call.
  A handler is optional: \<open>callbacks.onStart?.()\<close> calls it when the caller gave
  one. The record \<open>callbacks\<close> says which handlers are given; the handlers
  themselves return normally.
\<close>

datatype event =
    OnStart
  | OnUserMessage message
  | OnThinking
  | OnChunk jsstring
  | OnComplete message usage
  | OnError jsval

record callbacks =
  onStart :: bool
  onUserMessage :: bool
  onThinking :: bool
  onChunk :: bool
  onComplete :: bool
  onError :: bool

fun given :: "callbacks \<Rightarrow> event \<Rightarrow> bool" where
  "given cbs OnStart = onStart cbs"
| "given cbs (OnUserMessage m) = onUserMessage cbs"
| "given cbs OnThinking = onThinking cbs"
| "given cbs (OnChunk c) = onChunk cbs"
| "given cbs (OnComplete m u) = onComplete cbs"
| "given cbs (OnError e) = onError cbs"

definition call :: "callbacks \<Rightarrow> event \<Rightarrow> event list" where
  "call cbs ev = (if given cbs ev then [ev] else [])"

text \<open>
  What can leave \<open>sendMessage\<close> as an exception: the SyntaxError of \<open>JSON.parse\<close>,
  a TypeError (a property read on \<open>null\<close>, an object that cannot be converted to a
  string), an \<open>Error\<close> with its message, a rejected \<open>reader.read()\<close>, and a
  rejected \<open>fetch\<close>.
\<close>

datatype js_error = SyntaxError | TypeError | Error jsstring | ReadFailed | FetchFailed

text \<open>
  \<open>ToString\<close> (ECMA-262, 7.1.17), which \<open>new Error(v)\<close> applies to its argument.
  An object that \<open>JSON.parse\<close> made has no callable member: with an own member
  \<open>toString\<close> the conversion finds no method that returns a primitive and throws a
  TypeError, without one it is \<open>Object.prototype.toString\<close>. An array is joined
  with commas, \<open>null\<close> and \<open>undefined\<close> elements as the empty string.
\<close>

fun ToString :: "host \<Rightarrow> jsval \<Rightarrow> js_error + jsstring"
  and join :: "host \<Rightarrow> jsval list \<Rightarrow> js_error + jsstring" where
  "ToString h Undefined = Inr (js ''undefined'')"
| "ToString h Null = Inr (js ''null'')"
| "ToString h (Bool b) = Inr (if b then js ''true'' else js ''false'')"
| "ToString h (Num m e) = Inr (numberToString h m e)"
| "ToString h (Str s) = Inr s"
| "ToString h (Arr xs) = join h xs"
| "ToString h (Obj kvs) =
     (if map_of kvs (js ''toString'') \<noteq> None then Inl TypeError
      else Inr (js ''[object Object]''))"
| "join h [] = Inr []"
| "join h (x # xs) =
     (case (if x = Null \<or> x = Undefined then Inr [] else ToString h x) of
        Inl e \<Rightarrow> Inl e
      | Inr s \<Rightarrow>
          if xs = [] then Inr s
          else (case join h xs of Inl e \<Rightarrow> Inl e | Inr t \<Rightarrow> Inr (s @ js '','' @ t)))"

text \<open>\<open>throw new Error(v)\<close>: what is thrown.\<close>

definition new_Error :: "host \<Rightarrow> jsval \<Rightarrow> js_error" where
  "new_Error h v = (case ToString h v of Inl e \<Rightarrow> e | Inr msg \<Rightarrow> Error msg)"

datatype outcome = Resolved | Rejected js_error

subsection \<open>One record of the stream\<close>

text \<open>
  Lines 348 to 360 and again 378 to 390: the loop over \<open>data.content.attachments\<close>.
  \<open>att.url\<close> on a \<open>null\<close> entry throws.
\<close>

definition is_string :: "jsval \<Rightarrow> bool" where
  "is_string v = (case v of Str s \<Rightarrow> True | _ \<Rightarrow> False)"

definition isArray :: "jsval \<Rightarrow> bool" where
  "isArray v = (case v of Arr xs \<Rightarrow> True | _ \<Rightarrow> False)"

definition make_attachment :: "host \<Rightarrow> jsval \<Rightarrow> attachment" where
  "make_attachment h att =
     \<lparr> att_id = or_else (get att (js ''id'')) (Str (js ''att-'' @ show_int (now h))),
       att_url = get att (js ''url''),
       att_title = get att (js ''title''),
       att_contentType = or_else (get att (js ''contentType'')) (Str (js ''image'')) \<rparr>"

fun push_attachments :: "host \<Rightarrow> attachment list \<Rightarrow> jsval list \<Rightarrow> js_error + attachment list" where
  "push_attachments h acc [] = Inr acc"
| "push_attachments h acc (att # rest) =
     (if nullish att then Inl TypeError
      else if truthy (get att (js ''url'')) \<and> is_string (get att (js ''url''))
      then push_attachments h (acc @ [make_attachment h att]) rest
      else push_attachments h acc rest)"

definition extract_attachments :: "host \<Rightarrow> jsval \<Rightarrow> js_error + attachment list" where
  "extract_attachments h data =
     (let atts = opt_prop (get data (js ''content'')) (js ''attachments'') in
      if truthy atts \<and> isArray atts
      then (case atts of Arr xs \<Rightarrow> push_attachments h [] xs | _ \<Rightarrow> Inr [])
      else Inr [])"

text \<open>Lines 362 to 368 and 392 to 398.\<close>

definition build_message :: "host \<Rightarrow> role \<Rightarrow> jsval \<Rightarrow> attachment list \<Rightarrow> message" where
  "build_message h r data atts =
     \<lparr> msg_id = get data (js ''id''),
       msg_content = or_else (opt_prop (get data (js ''content'')) (js ''text'')) (Str []),
       msg_role = r,
       msg_createdAt = safeToISOString h (get data (js ''createdAt'')),
       msg_attachments = (if length atts > 0 then Some atts else None) \<rparr>"

text \<open>
  Lines 342 to 406: what one parsed record does. The result is the handlers called
  and the exception thrown, if any. \<open>data.type\<close> and \<open>data.message\<close> throw when
  the payload is \<open>null\<close>; \<open>callbacks.onError?.(...)\<close> evaluates its argument
  only when the caller gave the handler.
\<close>

definition dispatch :: "host \<Rightarrow> callbacks \<Rightarrow> jsstring \<Rightarrow> jsval \<Rightarrow> event list \<times> js_error option" where
  "dispatch h cbs eventType data =
     (if eventType = js ''connected'' then (call cbs OnStart, None)
      else if eventType = js ''message'' then
        (if nullish data then ([], Some TypeError)
         else if get data (js ''type'') = Str (js ''user'') then
           (case extract_attachments h data of
              Inl e \<Rightarrow> ([], Some e)
            | Inr userAttachments \<Rightarrow>
                (call cbs (OnUserMessage (build_message h User data userAttachments)), None))
         else if get data (js ''type'') = Str (js ''thinking'') then
           (call cbs OnThinking, None)
         else if truthy (get data (js ''isAgent'')) \<or> get data (js ''type'') = Str (js ''agent'') then
           (case extract_attachments h data of
              Inl e \<Rightarrow> ([], Some e)
            | Inr attachments \<Rightarrow>
                (call cbs (OnComplete (build_message h Assistant data attachments)
                                      \<lparr> tokens = 0, cost = 0 \<rparr>), None))
         else ([], None))
      else if eventType = js ''error'' then
        (if \<not> onError cbs then ([], None)
         else if nullish data then ([], Some TypeError)
         else ([OnError (or_else (get data (js ''message''))
                           (or_else (get data (js ''error'')) (Str (js ''Unknown error''))))],
               None))
      else ([], None))"

text \<open>
  Lines 325 to 335: the last \<open>event: \<close> line and the last \<open>data: \<close> line of the
  record.
\<close>

fun scan_lines :: "jsstring \<times> jsstring \<Rightarrow> jsstring list \<Rightarrow> jsstring \<times> jsstring" where
  "scan_lines (eventType, eventData) [] = (eventType, eventData)"
| "scan_lines (eventType, eventData) (line # lines) =
     (if startsWith (js ''event: '') line
      then scan_lines (trim (slice 7 line), eventData) lines
      else if startsWith (js ''data: '') line
      then scan_lines (eventType, slice 6 line) lines
      else scan_lines (eventType, eventData) lines)"

text \<open>
  Lines 323 to 407, the body of \<open>for (const message of messages)\<close>: a blank record
  and a record without data are passed over, \<open>JSON.parse\<close> is not inside a
  \<open>try\<close>.
\<close>

definition handle_message :: "host \<Rightarrow> callbacks \<Rightarrow> jsstring \<Rightarrow> event list \<times> js_error option" where
  "handle_message h cbs message =
     (if trim message = [] then ([], None)
      else
        (case scan_lines ([], []) (split (js ''\<newline>'') message) of
           (eventType, eventData) \<Rightarrow>
             if eventData = [] then ([], None)
             else
               (case JSON_parse eventData of
                  None \<Rightarrow> ([], Some SyntaxError)
                | Some data \<Rightarrow> dispatch h cbs eventType data)))"

fun process_messages :: "host \<Rightarrow> callbacks \<Rightarrow> jsstring list \<Rightarrow> event list \<times> js_error option" where
  "process_messages h cbs [] = ([], None)"
| "process_messages h cbs (message # messages) =
     (case handle_message h cbs message of
        (evs, Some e) \<Rightarrow> (evs, Some e)
      | (evs, None) \<Rightarrow>
          (case process_messages h cbs messages of
             (evs', r) \<Rightarrow> (evs @ evs', r)))"

subsection \<open>\<open>sendMessage\<close>\<close>

text \<open>
  A read of the body gives a text or fails; the end of the list is \<open>done\<close>.
  \<open>body\<close> is \<open>None\<close> for a response without a body.
\<close>

datatype read_result = Value jsstring | Failure

record response =
  status :: nat
  body :: "read_result list option"

datatype fetched = Responds response | NoResponse

definition ok :: "response \<Rightarrow> bool" where
  "ok r = (200 \<le> status r \<and> status r \<le> 299)"

text \<open>\<open>messages.pop() || ""\<close> and what stays in \<open>messages\<close>.\<close>

definition pop_or_empty :: "jsstring list \<Rightarrow> jsstring" where
  "pop_or_empty messages =
     (if messages = [] then [] else if last messages = [] then [] else last messages)"

text \<open>Lines 312 to 408, the \<open>while (true)\<close> loop with the buffer as its state.\<close>

fun read_loop :: "host \<Rightarrow> callbacks \<Rightarrow> jsstring \<Rightarrow> read_result list \<Rightarrow> event list \<times> outcome" where
  "read_loop h cbs buffer [] = ([], Resolved)"
| "read_loop h cbs buffer (Failure # reads) = ([], Rejected ReadFailed)"
| "read_loop h cbs buffer (Value chunk # reads) =
     (let messages = split (js ''\<newline>\<newline>'') (buffer @ chunk) in
      case process_messages h cbs (butlast messages) of
        (evs, Some e) \<Rightarrow> (evs, Rejected e)
      | (evs, None) \<Rightarrow>
          (case read_loop h cbs (pop_or_empty messages) reads of
             (evs', out) \<Rightarrow> (evs @ evs', out)))"

text \<open>
  \<open>response.json()\<close>: the whole body as one text, parsed; \<open>None\<close> when the
  promise rejects (a failed read, no body, or a text that is not JSON).
\<close>

fun body_text :: "read_result list \<Rightarrow> jsstring option" where
  "body_text [] = Some []"
| "body_text (Failure # reads) = None"
| "body_text (Value chunk # reads) = map_option ((@) chunk) (body_text reads)"

definition response_json :: "response \<Rightarrow> jsval option" where
  "response_json r =
     (case body r of
        None \<Rightarrow> None
      | Some reads \<Rightarrow> (case body_text reads of None \<Rightarrow> None | Some t \<Rightarrow> JSON_parse t))"

text \<open>
  Lines 283 to 409. The request is built from strings and cannot throw; \<open>fetch\<close>
  answers or rejects.
\<close>

definition sendMessage :: "host \<Rightarrow> callbacks \<Rightarrow> fetched \<Rightarrow> event list \<times> outcome" where
  "sendMessage h cbs f =
     (case f of
        NoResponse \<Rightarrow> ([], Rejected FetchFailed)
      | Responds r \<Rightarrow>
          if \<not> ok r then
            (let error = (case response_json r of
                            None \<Rightarrow> Obj [(js ''error'', Str (js ''Unknown error''))]
                          | Some v \<Rightarrow> v)
             in if nullish error then ([], Rejected TypeError)
                else ([], Rejected (new_Error h
                                      (or_else (get error (js ''error''))
                                         (Str (js ''API error: '' @ show_int (int (status r))))))))
          else
            (case body r of
               None \<Rightarrow> ([], Rejected (Error (js ''No response body'')))
             | Some reads \<Rightarrow> read_loop h cbs [] reads))"

text \<open>How the promise settles after the records of one run.\<close>

definition settle :: "event list \<times> js_error option \<Rightarrow> event list \<times> outcome" where
  "settle r = (case r of (evs, None) \<Rightarrow> (evs, Resolved) | (evs, Some e) \<Rightarrow> (evs, Rejected e))"

text \<open>
  The condition on a payload under which the loop over the attachments reads no
  property of \<open>null\<close>: \<open>content.attachments\<close> is not an array, or none of its
  entries is \<open>null\<close>.
\<close>

definition no_null_attachment :: "jsval \<Rightarrow> bool" where
  "no_null_attachment data =
     (case opt_prop (get data (js ''content'')) (js ''attachments'') of
        Arr xs \<Rightarrow> list_all (\<lambda>a. \<not> nullish a) xs
      | _ \<Rightarrow> True)"

text \<open>
  A host and a caller for the examples: the host parses no date of its own and prints
  integers; the caller gives every handler.
\<close>

definition example_host :: host where
  "example_host =
     \<lparr> now = 1700000000000, hostDate = (\<lambda>v. Time None), numberToString = (\<lambda>m e. show_int (m * 10 ^ nat e)) \<rparr>"

definition all_callbacks :: callbacks where
  "all_callbacks =
     \<lparr> onStart = True, onUserMessage = True, onThinking = True, onChunk = True,
       onComplete = True, onError = True \<rparr>"

definition stream :: "jsstring list \<Rightarrow> fetched" where
  "stream chunks = Responds \<lparr> status = 200, body = Some (map Value chunks) \<rparr>"

section \<open>Properties\<close>

subsection \<open>Splitting and the buffer\<close>

lemma split_not_Nil [simp]: "split sep s \<noteq> []"
  by (induction sep s rule: split.induct) (auto split: list.splits)

lemma startsWith_length: "startsWith sep s \<Longrightarrow> length sep \<le> length s"
proof -
  assume "startsWith sep s"
  then have "length (take (length sep) s) = length sep" by (simp add: startsWith_def)
  then show ?thesis by simp
qed

lemma startsWith_append: "startsWith sep a \<Longrightarrow> startsWith sep (a @ b)"
  unfolding startsWith_def by (metis append_eq_conv_conj append.assoc append_take_drop_id)

lemma split_short: "length s < length sep \<Longrightarrow> split sep s = [s]"
proof (induction s)
  case Nil
  then show ?case by simp
next
  case (Cons c cs)
  then have "\<not> startsWith sep (c # cs)"
    using startsWith_length[of sep "c # cs"] by auto
  moreover from Cons have "split sep cs = [cs]" by simp
  ultimately show ?case by simp
qed

lemma split_single: "split sep s = [x] \<Longrightarrow> x = s"
  by (induction sep s arbitrary: x rule: split.induct) (auto split: if_splits list.splits)

lemma split_last_fixed: "split sep (last (split sep a)) = [last (split sep a)]"
proof (induction sep a rule: split.induct)
  case (1 sep)
  then show ?case by simp
next
  case (2 sep c cs)
  show ?case
  proof (cases "sep \<noteq> [] \<and> startsWith sep (c # cs)")
    case True
    with 2 show ?thesis by simp
  next
    case False
    obtain s ss where sp: "split sep cs = s # ss"
      by (cases "split sep cs") auto
    show ?thesis
    proof (cases ss)
      case Nil
      with sp have "s = cs" using split_single by blast
      with False sp Nil have "split sep (c # cs) = [c # cs]" by auto
      then show ?thesis by simp
    next
      case (Cons a list)
      with False sp 2 show ?thesis by simp
    qed
  qed
qed

lemma split_append:
  "split sep (a @ b) = butlast (split sep a) @ split sep (last (split sep a) @ b)"
proof (induction sep a rule: split.induct)
  case (1 sep)
  then show ?case by simp
next
  case (2 sep c cs)
  show ?case
  proof (cases "sep \<noteq> [] \<and> startsWith sep (c # cs)")
    case True
    then have m: "sep \<noteq> [] \<and> startsWith sep ((c # cs) @ b)"
      using startsWith_append by blast
    have len: "length sep \<le> length (c # cs)"
      using True startsWith_length by blast
    have dr: "drop (length sep) ((c # cs) @ b) = drop (length sep) (c # cs) @ b"
      using len by (simp only: drop_append) simp
    have "split sep ((c # cs) @ b) = [] # split sep (drop (length sep) ((c # cs) @ b))"
      using m by simp
    also have "\<dots> = [] # split sep (drop (length sep) (c # cs) @ b)"
      by (simp only: dr)
    also have "\<dots> = [] # butlast (split sep (drop (length sep) (c # cs)))
                      @ split sep (last (split sep (drop (length sep) (c # cs))) @ b)"
      using "2.IH"(1)[OF True] by simp
    finally show ?thesis using True by simp
  next
    case False
    have e1: "split sep (c # cs) = (case split sep cs of [] \<Rightarrow> [[c]] | s # ss \<Rightarrow> (c # s) # ss)"
      by (simp only: split.simps False if_False)
    obtain s ss where sp: "split sep cs = s # ss"
      by (cases "split sep cs") auto
    show ?thesis
    proof (cases "sep \<noteq> [] \<and> startsWith sep (c # (cs @ b))")
      case straddle: True
      have "length (c # cs) < length sep"
      proof (rule ccontr)
        assume "\<not> length (c # cs) < length sep"
        then have "length sep \<le> length (c # cs)" by simp
        then have "take (length sep) ((c # cs) @ b) = take (length sep) (c # cs)"
          by (simp only: take_append) simp
        with straddle False show False by (simp add: startsWith_def)
      qed
      then have "split sep (c # cs) = [c # cs]" by (rule split_short)
      then show ?thesis by simp
    next
      case nomatch: False
      have e2: "split sep ((c # cs) @ b)
                = (case split sep (cs @ b) of [] \<Rightarrow> [[c]] | s # ss \<Rightarrow> (c # s) # ss)"
        by (simp only: append_Cons split.simps nomatch if_False)
      have ih: "split sep (cs @ b) = butlast (split sep cs) @ split sep (last (split sep cs) @ b)"
        using "2.IH"(2)[OF False] .
      show ?thesis
      proof (cases ss)
        case Nil
        with sp have s: "s = cs" using split_single by blast
        from e1 sp Nil s have "split sep (c # cs) = [c # cs]" by simp
        then show ?thesis by simp
      next
        case (Cons a list)
        have "split sep (cs @ b) = s # butlast ss @ split sep (last ss @ b)"
          using ih sp Cons by simp
        then have "split sep ((c # cs) @ b) = (c # s) # butlast ss @ split sep (last ss @ b)"
          using e2 by simp
        moreover have "split sep (c # cs) = (c # s) # ss"
          using e1 sp by simp
        ultimately show ?thesis using Cons by simp
      qed
    qed
  qed
qed


lemma process_messages_append:
  "process_messages h cbs (xs @ ys) =
     (case process_messages h cbs xs of
        (evs, Some e) \<Rightarrow> (evs, Some e)
      | (evs, None) \<Rightarrow>
          (case process_messages h cbs ys of (evs', r) \<Rightarrow> (evs @ evs', r)))"
  by (induction xs) (auto split: prod.splits option.splits)

lemma pop_or_empty_split [simp]: "pop_or_empty (split sep s) = last (split sep s)"
  by (simp add: pop_or_empty_def)

text \<open>
  The loop over any chunks does what one pass over the whole text does: it handles
  every segment of the split but the last.
\<close>

lemma read_loop_whole:
  "split (js ''\<newline>\<newline>'') buffer = [buffer] \<Longrightarrow>
   read_loop h cbs buffer (map Value chunks) =
     settle (process_messages h cbs
               (butlast (split (js ''\<newline>\<newline>'') (buffer @ concat chunks))))"
proof (induction chunks arbitrary: buffer)
  case Nil
  then show ?case by (simp add: settle_def)
next
  case (Cons chunk chunks)
  let ?nn = "js ''\<newline>\<newline>''"
  let ?ms = "split ?nn (buffer @ chunk)"
  have fixed: "split ?nn (last ?ms) = [last ?ms]" by (rule split_last_fixed)
  have ih: "read_loop h cbs (last ?ms) (map Value chunks) =
        settle (process_messages h cbs (butlast (split ?nn (last ?ms @ concat chunks))))"
    by (rule Cons.IH[OF fixed])
  have "split ?nn (buffer @ concat (chunk # chunks)) = split ?nn ((buffer @ chunk) @ concat chunks)"
    by simp
  also have "\<dots> = butlast ?ms @ split ?nn (last ?ms @ concat chunks)"
    by (rule split_append)
  finally have "butlast (split ?nn (buffer @ concat (chunk # chunks)))
      = butlast ?ms @ butlast (split ?nn (last ?ms @ concat chunks))"
    by (simp add: butlast_append)
  then show ?case
    using ih
    by (simp add: process_messages_append settle_def Let_def split: prod.splits option.splits)
qed

lemma read_loop_start:
  "read_loop h cbs [] (map Value chunks) =
     settle (process_messages h cbs (butlast (split (js ''\<newline>\<newline>'') (concat chunks))))"
  using read_loop_whole[of "[]" h cbs chunks] by simp

lemma body_text_values: "body_text (map Value chunks) = Some (concat chunks)"
  by (induction chunks) auto

lemma sendMessage_stream:
  "sendMessage h cbs (stream chunks) =
     settle (process_messages h cbs (butlast (split (js ''\<newline>\<newline>'') (concat chunks))))"
  by (simp add: sendMessage_def stream_def ok_def read_loop_start)

subsection \<open>One record\<close>

text \<open>
  A record of white space only has no \<open>data: \<close> line, so the two tests that pass over a
  record (\<open>!message.trim()\<close> and \<open>!eventData\<close>) come down to the second one.
\<close>

lemma split_set: "seg \<in> set (split sep s) \<Longrightarrow> set seg \<subseteq> set s"
proof (induction sep s arbitrary: seg rule: split.induct)
  case (1 sep)
  then show ?case by simp
next
  case (2 sep c cs)
  show ?case
  proof (cases "sep \<noteq> [] \<and> startsWith sep (c # cs)")
    case True
    with "2.prems" have "seg = [] \<or> seg \<in> set (split sep (drop (length sep) (c # cs)))"
      by simp
    then show ?thesis
    proof
      assume "seg = []" then show ?thesis by simp
    next
      assume "seg \<in> set (split sep (drop (length sep) (c # cs)))"
      then have "set seg \<subseteq> set (drop (length sep) (c # cs))"
        using "2.IH"(1)[OF True] by blast
      then show ?thesis using set_drop_subset[of "length sep" "c # cs"] by blast
    qed
  next
    case False
    have e1: "split sep (c # cs) = (case split sep cs of [] \<Rightarrow> [[c]] | s # ss \<Rightarrow> (c # s) # ss)"
      by (simp only: split.simps False if_False)
    obtain s ss where sp: "split sep cs = s # ss"
      by (cases "split sep cs") auto
    with e1 "2.prems" have "seg = c # s \<or> seg \<in> set ss" by simp
    then show ?thesis
    proof
      assume "seg = c # s"
      moreover have "set s \<subseteq> set cs" using "2.IH"(2)[OF False, of s] sp by simp
      ultimately show ?thesis by auto
    next
      assume "seg \<in> set ss"
      then have "set seg \<subseteq> set cs" using "2.IH"(2)[OF False, of seg] sp by simp
      then show ?thesis by auto
    qed
  qed
qed

lemma trim_empty: "trim s = [] \<Longrightarrow> \<forall>c \<in> set s. is_space c"
proof -
  assume "trim s = []"
  then have "dropWhile is_space (rev (dropWhile is_space s)) = []"
    by (simp add: trim_def)
  then have all: "\<forall>c \<in> set (dropWhile is_space s). is_space c"
    by (simp add: dropWhile_eq_Nil_conv)
  have "dropWhile is_space s = []"
  proof (rule ccontr)
    assume ne: "dropWhile is_space s \<noteq> []"
    then have "\<not> is_space (hd (dropWhile is_space s))" by (rule hd_dropWhile)
    moreover have "hd (dropWhile is_space s) \<in> set (dropWhile is_space s)" using ne by simp
    ultimately show False using all by blast
  qed
  then show ?thesis by (simp add: dropWhile_eq_Nil_conv)
qed

lemma scan_lines_no_data:
  "\<forall>l \<in> set lines. \<not> startsWith (js ''data: '') l \<Longrightarrow>
   snd (scan_lines (et, ed) lines) = ed"
  by (induction "(et, ed)" lines arbitrary: et rule: scan_lines.induct) auto

lemma data_line_not_blank: "startsWith (js ''data: '') l \<Longrightarrow> \<exists>c \<in> set l. \<not> is_space c"
proof -
  assume "startsWith (js ''data: '') l"
  then have "take (length (js ''data: '')) l = js ''data: ''" by (simp add: startsWith_def)
  then obtain r where "l = 100 # r" by (cases l) (auto simp: js_def)
  then show ?thesis by (auto simp: is_space_def)
qed

lemma blank_record_no_data:
  assumes "trim m = []"
  shows "snd (scan_lines ([], []) (split (js ''\<newline>'') m)) = []"
proof -
  have "\<forall>l \<in> set (split (js ''\<newline>'') m). \<not> startsWith (js ''data: '') l"
  proof
    fix l assume "l \<in> set (split (js ''\<newline>'') m)"
    then have "set l \<subseteq> set m" by (rule split_set)
    with trim_empty[OF assms] have "\<forall>c \<in> set l. is_space c" by blast
    then show "\<not> startsWith (js ''data: '') l" using data_line_not_blank by blast
  qed
  then show ?thesis by (rule scan_lines_no_data)
qed

lemma handle_message_eq:
  assumes "scan_lines ([], []) (split (js ''\<newline>'') m) = (eventType, eventData)"
  shows "handle_message h cbs m =
           (if eventData = [] then ([], None)
            else (case JSON_parse eventData of
                    None \<Rightarrow> ([], Some SyntaxError)
                  | Some data \<Rightarrow> dispatch h cbs eventType data))"
proof (cases "trim m = []")
  case True
  then have "eventData = []" using blank_record_no_data[OF True] assms by simp
  with True show ?thesis by (simp add: handle_message_def)
next
  case False
  with assms show ?thesis by (simp add: handle_message_def)
qed

lemma process_messages_insert:
  "process_messages h cbs (pre @ m # post) =
     (case process_messages h cbs pre of
        (evs, Some e) \<Rightarrow> (evs, Some e)
      | (evs, None) \<Rightarrow>
          (case handle_message h cbs m of
             (es, Some e) \<Rightarrow> (evs @ es, Some e)
           | (es, None) \<Rightarrow>
               (case process_messages h cbs post of (evs', r) \<Rightarrow> (evs @ es @ evs', r))))"
  by (simp add: process_messages_append split: prod.splits option.splits)

lemma sendMessage_records:
  "split (js ''\<newline>\<newline>'') (concat chunks) = messages @ [rest] \<Longrightarrow>
   sendMessage h cbs (stream chunks) = settle (process_messages h cbs messages)"
  by (simp add: sendMessage_stream)

subsection \<open>The shapes of a message payload\<close>

lemma handle_message_parsed:
  assumes "scan_lines ([], []) (split (js ''\<newline>'') m) = (eventType, eventData)"
    and "eventData \<noteq> []"
    and "JSON_parse eventData = Some data"
  shows "handle_message h cbs m = dispatch h cbs eventType data"
  using handle_message_eq[OF assms(1)] assms(2,3) by simp

lemma string_url_guard:
  "(truthy v \<and> is_string v) = (case v of Str s \<Rightarrow> s \<noteq> [] | _ \<Rightarrow> False)"
  by (cases v) (simp_all add: is_string_def)

lemma push_attachments_ok:
  "\<forall>a \<in> set xs. \<not> nullish a \<Longrightarrow>
   push_attachments h acc xs =
     Inr (acc @ map (make_attachment h)
                  (filter (\<lambda>a. case get a (js ''url'') of Str s \<Rightarrow> s \<noteq> [] | _ \<Rightarrow> False) xs))"
proof (induction xs arbitrary: acc)
  case Nil
  then show ?case by simp
next
  case (Cons a xs)
  then have ih: "\<And>acc. push_attachments h acc xs =
     Inr (acc @ map (make_attachment h)
                  (filter (\<lambda>a. case get a (js ''url'') of Str s \<Rightarrow> s \<noteq> [] | _ \<Rightarrow> False) xs))"
    by simp
  from Cons.prems have "\<not> nullish a" by simp
  then show ?case
    using ih string_url_guard[of "get a (js ''url'')"] by simp
qed

lemma push_attachments_null:
  "\<exists>a \<in> set xs. nullish a \<Longrightarrow> push_attachments h acc xs = Inl TypeError"
  by (induction xs arbitrary: acc) auto

lemma extract_attachments_array:
  assumes "opt_prop (get data (js ''content'')) (js ''attachments'') = Arr xs"
    and "\<forall>a \<in> set xs. \<not> nullish a"
  shows "extract_attachments h data =
     Inr (map (make_attachment h)
            (filter (\<lambda>a. case get a (js ''url'') of Str s \<Rightarrow> s \<noteq> [] | _ \<Rightarrow> False) xs))"
  using assms push_attachments_ok[of xs h "[]"]
  by (simp add: extract_attachments_def isArray_def)

lemma dispatch_user:
  assumes "get data (js ''type'') = Str (js ''user'')"
  shows "dispatch h cbs (js ''message'') data =
     (case extract_attachments h data of
        Inl e \<Rightarrow> ([], Some e)
      | Inr atts \<Rightarrow> (call cbs (OnUserMessage (build_message h User data atts)), None))"
proof -
  have "\<not> nullish data" using assms by (auto simp: nullish_def)
  moreover have "js ''message'' \<noteq> js ''connected''" by (simp add: js_def)
  ultimately show ?thesis using assms by (simp add: dispatch_def)
qed


lemma dispatch_agent:
  assumes "get data (js ''type'') \<noteq> Str (js ''user'')"
    and "get data (js ''type'') \<noteq> Str (js ''thinking'')"
    and "truthy (get data (js ''isAgent'')) \<or> get data (js ''type'') = Str (js ''agent'')"
  shows "dispatch h cbs (js ''message'') data =
     (case extract_attachments h data of
        Inl e \<Rightarrow> ([], Some e)
      | Inr atts \<Rightarrow>
          (call cbs (OnComplete (build_message h Assistant data atts) \<lparr> tokens = 0, cost = 0 \<rparr>),
           None))"
proof -
  have "\<not> nullish data" using assms(3) by (auto simp: nullish_def)
  moreover have "js ''message'' \<noteq> js ''connected''" by (simp add: js_def)
  ultimately show ?thesis using assms by (simp add: dispatch_def)
qed




lemma extract_attachments_throws:
  assumes "\<not> no_null_attachment data"
  shows "extract_attachments h data = Inl TypeError"
proof (cases "opt_prop (get data (js ''content'')) (js ''attachments'')")
  case (Arr xs)
  with assms have "\<exists>a \<in> set xs. nullish a"
    by (simp add: no_null_attachment_def list_all_iff)
  then show ?thesis
    using Arr push_attachments_null[of xs h "[]"]
    by (simp add: extract_attachments_def isArray_def)
qed (use assms in \<open>simp_all add: no_null_attachment_def\<close>)

subsection \<open>C3: chunk boundaries\<close>

text \<open>
  C3. However the text of the response is cut into chunks, \<open>sendMessage\<close> calls the
  same handlers with the same arguments in the same order, and settles the same way,
  as when the reader delivers the whole text in one chunk. The status is arbitrary, so
  this covers the error body of a failed request as well as the stream.
\<close>

theorem chunk_boundary_independence:
  "sendMessage h cbs (Responds \<lparr> status = st, body = Some (map Value chunks) \<rparr>)
   = sendMessage h cbs (Responds \<lparr> status = st, body = Some [Value (concat chunks)] \<rparr>)"
proof -
  have "read_loop h cbs [] (map Value chunks) = read_loop h cbs [] (map Value [concat chunks])"
    by (simp only: read_loop_start) simp
  moreover have "body_text (map Value chunks) = body_text (map Value [concat chunks])"
    by (simp only: body_text_values) simp
  ultimately show ?thesis
    by (simp add: sendMessage_def ok_def response_json_def Let_def)
qed

theorem chunk_boundary_independence_witness:
  \<open>sendMessage example_host all_callbacks
     (Responds \<lparr> status = 200,
                 body = Some (map Value [js ''event: conn'', js ''ected\<newline>data: {"a":'',
                                         js ''1}\<newline>'', js ''\<newline>event: mess'']) \<rparr>)
   = ([OnStart], Resolved)\<close>
proof -
  have \<open>sendMessage example_host all_callbacks
          (Responds \<lparr> status = 200,
                      body = Some [Value (concat [js ''event: conn'', js ''ected\<newline>data: {"a":'',
                                                  js ''1}\<newline>'', js ''\<newline>event: mess''])] \<rparr>)
        = ([OnStart], Resolved)\<close>
    by code_simp
  with chunk_boundary_independence[of example_host all_callbacks 200
            \<open>[js ''event: conn'', js ''ected\<newline>data: {"a":'', js ''1}\<newline>'',
              js ''\<newline>event: mess'']\<close>]
  show ?thesis by (rule trans)
qed

subsection \<open>C1: a payload that is not JSON\<close>

text \<open>
  As stated, C1 fails: \<open>JSON.parse(eventData)\<close> on line 339 is not inside a \<open>try\<close>.
  A record with the payload \<open>{oops\<close> rejects the promise with the SyntaxError, and the
  well-formed \<open>connected\<close> record after it, which calls \<open>onStart\<close> when it stands
  alone, calls nothing.
\<close>

theorem malformed_record_counterexample:
  \<open>sendMessage example_host all_callbacks
     (stream [js ''event: message\<newline>data: {oops\<newline>\<newline>event: connected\<newline>data: {}\<newline>\<newline>''])
     = ([], Rejected SyntaxError)
   \<and> sendMessage example_host all_callbacks
     (stream [js ''event: connected\<newline>data: {}\<newline>\<newline>''])
     = ([OnStart], Resolved)\<close>
  by code_simp

text \<open>
  C1, amended. A record that is followed by a blank line and whose \<open>data: \<close> payload
  is not empty and not valid JSON ends the call: \<open>sendMessage\<close> rejects with the
  SyntaxError of \<open>JSON.parse\<close> (or with the exception of an earlier record, if one
  threw). The handlers of the earlier records have run; none runs for the malformed
  record or for any record after it.
\<close>

theorem malformed_record_rejects:
  assumes "split (js ''\<newline>\<newline>'') (concat chunks) = pre @ m # post @ [rest]"
    and "scan_lines ([], []) (split (js ''\<newline>'') m) = (eventType, eventData)"
    and "eventData \<noteq> []"
    and "JSON_parse eventData = None"
  shows "sendMessage h cbs (stream chunks) =
           (case process_messages h cbs pre of
              (evs, Some e) \<Rightarrow> (evs, Rejected e)
            | (evs, None) \<Rightarrow> (evs, Rejected SyntaxError))"
proof -
  have hm: "handle_message h cbs m = ([], Some SyntaxError)"
    using handle_message_eq[OF assms(2)] assms(3,4) by simp
  have "split (js ''\<newline>\<newline>'') (concat chunks) = (pre @ m # post) @ [rest]"
    using assms(1) by simp
  then have "sendMessage h cbs (stream chunks) = settle (process_messages h cbs (pre @ m # post))"
    by (rule sendMessage_records)
  then show ?thesis
    using hm by (simp add: process_messages_insert settle_def split: prod.splits option.splits)
qed

theorem malformed_record_rejects_witness:
  \<open>sendMessage example_host all_callbacks
     (stream [js ''event: connected\<newline>data: {}\<newline>\<newline>event: message\<newline>data: '',
              js ''{oops\<newline>\<newline>event: message\<newline>data: {"type":"thinking"}\<newline>\<newline>''])
   = ([OnStart], Rejected SyntaxError)\<close>
proof -
  have a: \<open>split (js ''\<newline>\<newline>'')
            (concat [js ''event: connected\<newline>data: {}\<newline>\<newline>event: message\<newline>data: '',
                     js ''{oops\<newline>\<newline>event: message\<newline>data: {"type":"thinking"}\<newline>\<newline>''])
           = [js ''event: connected\<newline>data: {}''] @ js ''event: message\<newline>data: {oops''
             # [js ''event: message\<newline>data: {"type":"thinking"}''] @ [[]]\<close>
    by code_simp
  have b: \<open>scan_lines ([], []) (split (js ''\<newline>'') (js ''event: message\<newline>data: {oops''))
           = (js ''message'', js ''{oops'')\<close>
    by code_simp
  have c: \<open>js ''{oops'' \<noteq> []\<close> by code_simp
  have d: \<open>JSON_parse (js ''{oops'') = None\<close> by code_simp
  have p: \<open>process_messages example_host all_callbacks [js ''event: connected\<newline>data: {}'']
           = ([OnStart], None)\<close>
    by code_simp
  show ?thesis
    unfolding malformed_record_rejects[OF a b c d] p by simp
qed

subsection \<open>C2: the end of the stream\<close>

text \<open>
  As stated, C2 fails: after \<open>if (done) break\<close> the function returns, and nothing
  reads the buffer again. An \<open>error\<close> record without the blank line after it calls
  nothing, where the same record followed by a blank line calls \<open>onError\<close>; the
  payload \<open>{"type":"complete","imageUrl":"x"}\<close> at the end of the stream calls
  nothing either.
\<close>

theorem no_flush_counterexample:
  \<open>sendMessage example_host all_callbacks
     (stream [js ''event: error\<newline>data: {"message":"boom"}''])
     = ([], Resolved)
   \<and> sendMessage example_host all_callbacks
     (stream [js ''event: error\<newline>data: {"message":"boom"}\<newline>\<newline>''])
     = ([OnError (Str (js ''boom''))], Resolved)
   \<and> sendMessage example_host all_callbacks
     (stream [js ''data: {"type":"complete","imageUrl":"x"}''])
     = ([], Resolved)\<close>
  by code_simp

text \<open>
  C2, amended. When the reader signals the end of the stream, \<open>sendMessage\<close> resolves
  without a flush: the text after the last blank-line separator is never parsed and no
  handler runs for it. The call is determined by the records before that separator.
\<close>

theorem unterminated_tail_discarded:
  assumes "split (js ''\<newline>\<newline>'') (concat chunks) = messages @ [rest]"
  shows "sendMessage h cbs (stream chunks) = settle (process_messages h cbs messages)"
  using assms by (rule sendMessage_records)

theorem unterminated_tail_discarded_witness:
  \<open>sendMessage example_host all_callbacks
     (stream [js ''event: connected\<newline>data: {}\<newline>\<newline>data: {"type":"complete","imageUrl":"x"}''])
   = ([OnStart], Resolved)\<close>
proof -
  have a: \<open>split (js ''\<newline>\<newline>'')
            (concat [js ''event: connected\<newline>data: {}\<newline>\<newline>data: {"type":"complete","imageUrl":"x"}''])
           = [js ''event: connected\<newline>data: {}''] @ [js ''data: {"type":"complete","imageUrl":"x"}'']\<close>
    by code_simp
  have p: \<open>settle (process_messages example_host all_callbacks [js ''event: connected\<newline>data: {}''])
           = ([OnStart], Resolved)\<close>
    by code_simp
  show ?thesis
    unfolding unterminated_tail_discarded[OF a] p by simp
qed

subsection \<open>C4: a failure before the stream\<close>

text \<open>
  As stated, C4 fails where the body of a failed response is not JSON: the
  \<open>catch\<close> on line 300 puts \<open>{error: "Unknown error"}\<close> in its place, so the promise
  rejects with "Unknown error" and not with "API error: 502".
\<close>

theorem prestream_failure_counterexample:
  \<open>sendMessage example_host all_callbacks
     (Responds \<lparr> status = 502, body = Some [Value (js ''Bad Gateway'')] \<rparr>)
     = ([], Rejected (Error (js ''Unknown error'')))
   \<and> js ''Unknown error'' \<noteq> js ''API error: 502''\<close>
  by code_simp

text \<open>
  C4, amended. When the status is not from 200 to 299, \<open>sendMessage\<close> rejects and calls
  no handler: with the message "Unknown error" when the body cannot be read as JSON;
  with the \<open>error\<close> member of the body as the message when the body is JSON other
  than \<open>null\<close> and that member is a non-empty string; with "API error: " and the
  status when the body is JSON other than \<open>null\<close> without a truthy \<open>error\<close>; with
  what \<open>new Error\<close> makes of a truthy \<open>error\<close> that is not a string, its conversion
  to a string as the message or the TypeError of that conversion; with a TypeError when
  the body is the JSON value \<open>null\<close>. With a successful status and no body it rejects
  with "No response body", and calls no handler.
\<close>

theorem prestream_failure:
  "(\<not> ok r \<longrightarrow> response_json r = None \<longrightarrow>
      sendMessage h cbs (Responds r) = ([], Rejected (Error (js ''Unknown error''))))
   \<and> (\<not> ok r \<longrightarrow> response_json r = Some v \<longrightarrow> \<not> nullish v \<longrightarrow>
        get v (js ''error'') = Str msg \<longrightarrow> msg \<noteq> [] \<longrightarrow>
      sendMessage h cbs (Responds r) = ([], Rejected (Error msg)))
   \<and> (\<not> ok r \<longrightarrow> response_json r = Some v \<longrightarrow> \<not> nullish v \<longrightarrow>
        \<not> truthy (get v (js ''error'')) \<longrightarrow>
      sendMessage h cbs (Responds r)
        = ([], Rejected (Error (js ''API error: '' @ show_int (int (status r))))))
   \<and> (ok r \<longrightarrow> body r = None \<longrightarrow>
      sendMessage h cbs (Responds r) = ([], Rejected (Error (js ''No response body''))))
   \<and> (\<not> ok r \<longrightarrow> response_json r = Some v \<longrightarrow> \<not> nullish v \<longrightarrow>
        truthy (get v (js ''error'')) \<longrightarrow>
      sendMessage h cbs (Responds r) = ([], Rejected (new_Error h (get v (js ''error'')))))
   \<and> (\<not> ok r \<longrightarrow> response_json r = Some v \<longrightarrow> nullish v \<longrightarrow>
      sendMessage h cbs (Responds r) = ([], Rejected TypeError))
   \<and> (\<not> ok r \<or> body r = None \<longrightarrow>
      fst (sendMessage h cbs (Responds r)) = [] \<and> snd (sendMessage h cbs (Responds r)) \<noteq> Resolved)"
proof -
  have unknown: "get (Obj [(js ''error'', Str (js ''Unknown error''))]) (js ''error'')
                 = Str (js ''Unknown error'')"
    by simp
  have t: "js ''Unknown error'' \<noteq> []" by (simp add: js_def)
  have rejects: "\<not> ok r \<or> body r = None \<longrightarrow>
      fst (sendMessage h cbs (Responds r)) = [] \<and> snd (sendMessage h cbs (Responds r)) \<noteq> Resolved"
    by (auto simp: sendMessage_def Let_def new_Error_def split: option.splits sum.splits)
  show ?thesis
    using rejects
    by (simp add: sendMessage_def Let_def or_else_def nullish_def new_Error_def unknown t)
qed

theorem prestream_failure_witness:
  \<open>sendMessage example_host all_callbacks
     (Responds \<lparr> status = 402, body = Some [Value (js ''{"error":"Insufficient credits"}'')] \<rparr>)
   = ([], Rejected (Error (js ''Insufficient credits'')))\<close>
proof -
  let ?r = \<open>\<lparr> status = 402, body = Some [Value (js ''{"error":"Insufficient credits"}'')] \<rparr>\<close>
  let ?v = \<open>Obj [(js ''error'', Str (js ''Insufficient credits''))]\<close>
  have a: "\<not> ok ?r" by code_simp
  have b: "response_json ?r = Some ?v" by code_simp
  have c: "\<not> nullish ?v" by code_simp
  have d: "get ?v (js ''error'') = Str (js ''Insufficient credits'')" by code_simp
  have e: "js ''Insufficient credits'' \<noteq> []" by code_simp
  from prestream_failure[where r = ?r and v = ?v and h = example_host and cbs = all_callbacks
         and msg = "js ''Insufficient credits''"] a b c d e
  show ?thesis by blast
qed

text \<open>
  A truthy \<open>error\<close> member that is not a string goes through \<open>ToString\<close> in
  \<open>new Error\<close>: an object with an own member \<open>toString\<close> makes that throw, and the
  body \<open>null\<close> makes \<open>error.error\<close> throw.
\<close>

lemma prestream_error_not_a_string:
  \<open>sendMessage example_host all_callbacks
     (Responds \<lparr> status = 500, body = Some [Value (js ''{"error":{"toString":1}}'')] \<rparr>)
   = ([], Rejected TypeError)
   \<and> sendMessage example_host all_callbacks
     (Responds \<lparr> status = 500, body = Some [Value (js ''{"error":{"code":7}}'')] \<rparr>)
   = ([], Rejected (Error (js ''[object Object]'')))
   \<and> sendMessage example_host all_callbacks
     (Responds \<lparr> status = 500, body = Some [Value (js ''null'')] \<rparr>)
   = ([], Rejected TypeError)\<close>
  by code_simp

subsection \<open>C5: the error event\<close>

text \<open>
  As stated, C5 fails in two ways. The fallbacks are \<open>||\<close>: a payload whose
  \<open>message\<close> is the empty string is reported with its \<open>error\<close> member, not with
  its \<open>message\<close>. And the payload \<open>null\<close> makes \<open>data.message\<close> throw: the promise
  rejects, \<open>onError\<close> is not called and the record after it is not handled.
\<close>

theorem error_event_counterexample:
  \<open>sendMessage example_host all_callbacks
     (stream [js ''event: error\<newline>data: {"message":"","error":"boom"}\<newline>\<newline>''])
     = ([OnError (Str (js ''boom''))], Resolved)
   \<and> get (Obj [(js ''message'', Str []), (js ''error'', Str (js ''boom''))]) (js ''message'') = Str []
   \<and> sendMessage example_host all_callbacks
     (stream [js ''event: error\<newline>data: null\<newline>\<newline>event: connected\<newline>data: {}\<newline>\<newline>''])
     = ([], Rejected TypeError)\<close>
  by code_simp

text \<open>
  C5, amended. A record with \<open>event: error\<close> that is followed by a blank line, is
  reached without an earlier exception, and whose payload is not empty and parses to a
  value other than \<open>null\<close>, calls \<open>onError\<close> (when the caller gave it) once, between
  the handlers of the records before it and those of the records after it, with
  \<open>message\<close> if that is truthy, else \<open>error\<close> if that is truthy, else
  "Unknown error". With handlers that return normally it throws nothing: the records
  after it are handled as they would be without it.
\<close>

theorem error_event_delivered:
  assumes "split (js ''\<newline>\<newline>'') (concat chunks) = pre @ m # post @ [rest]"
    and "scan_lines ([], []) (split (js ''\<newline>'') m) = (js ''error'', eventData)"
    and "eventData \<noteq> []"
    and "JSON_parse eventData = Some data"
    and "\<not> nullish data"
    and "process_messages h cbs pre = (evs, None)"
  shows "sendMessage h cbs (stream chunks) =
           (case settle (process_messages h cbs post) of
              (evs', out) \<Rightarrow>
                (evs @ call cbs (OnError (or_else (get data (js ''message''))
                                           (or_else (get data (js ''error''))
                                                    (Str (js ''Unknown error'')))))
                     @ evs', out))"
proof -
  have ne: "js ''error'' \<noteq> js ''connected''" "js ''error'' \<noteq> js ''message''"
    by (simp_all add: js_def)
  have hm: "handle_message h cbs m =
              (call cbs (OnError (or_else (get data (js ''message''))
                                   (or_else (get data (js ''error'')) (Str (js ''Unknown error''))))),
               None)"
    using handle_message_eq[OF assms(2)] assms(3,4,5) ne by (simp add: dispatch_def call_def)
  have "split (js ''\<newline>\<newline>'') (concat chunks) = (pre @ m # post) @ [rest]"
    using assms(1) by simp
  then have "sendMessage h cbs (stream chunks) = settle (process_messages h cbs (pre @ m # post))"
    by (rule sendMessage_records)
  then show ?thesis
    using hm assms(6)
    by (simp add: process_messages_insert settle_def split: prod.splits option.splits)
qed

theorem error_event_delivered_witness:
  \<open>sendMessage example_host all_callbacks
     (stream [js ''event: error\<newline>data: {"message":"insufficient credits"}\<newline>\<newline>event: done\<newline>data: {}\<newline>\<newline>''])
   = ([OnError (Str (js ''insufficient credits''))], Resolved)\<close>
proof -
  have a: \<open>split (js ''\<newline>\<newline>'')
            (concat [js ''event: error\<newline>data: {"message":"insufficient credits"}\<newline>\<newline>event: done\<newline>data: {}\<newline>\<newline>''])
           = [] @ js ''event: error\<newline>data: {"message":"insufficient credits"}''
             # [js ''event: done\<newline>data: {}''] @ [[]]\<close>
    by code_simp
  have b: \<open>scan_lines ([], []) (split (js ''\<newline>'') (js ''event: error\<newline>data: {"message":"insufficient credits"}''))
           = (js ''error'', js ''{"message":"insufficient credits"}'')\<close>
    by code_simp
  have c: \<open>js ''{"message":"insufficient credits"}'' \<noteq> []\<close> by code_simp
  have d: \<open>JSON_parse (js ''{"message":"insufficient credits"}'')
           = Some (Obj [(js ''message'', Str (js ''insufficient credits''))])\<close>
    by code_simp
  have e: \<open>\<not> nullish (Obj [(js ''message'', Str (js ''insufficient credits''))])\<close> by code_simp
  have f: "process_messages example_host all_callbacks [] = ([], None)" by simp
  have g: \<open>(case settle (process_messages example_host all_callbacks [js ''event: done\<newline>data: {}'']) of
              (evs', out) \<Rightarrow>
                ([] @ call all_callbacks (OnError (or_else (get (Obj [(js ''message'', Str (js ''insufficient credits''))]) (js ''message''))
                                           (or_else (get (Obj [(js ''message'', Str (js ''insufficient credits''))]) (js ''error''))
                                                    (Str (js ''Unknown error'')))))
                     @ evs', out))
           = ([OnError (Str (js ''insufficient credits''))], Resolved)\<close>
    by code_simp
  show ?thesis
    unfolding error_event_delivered[OF a b c d e f] g ..
qed

subsection \<open>C9: records that call nothing\<close>

text \<open>
  As stated, C9 fails for a record with an unknown event name and a payload that is
  not JSON: \<open>JSON.parse\<close> runs before the event name is looked at, the promise
  rejects, and the \<open>connected\<close> record after it is not handled.
\<close>

theorem unknown_record_counterexample:
  \<open>sendMessage example_host all_callbacks
     (stream [js ''event: foo\<newline>data: {oops\<newline>\<newline>event: connected\<newline>data: {}\<newline>\<newline>''])
   = ([], Rejected SyntaxError)\<close>
  by code_simp

text \<open>
  C9, amended. A record followed by a blank line calls no handler, and the records
  around it are handled as if it were not there, when it has no \<open>data: \<close> payload, or
  when the payload is valid JSON and either the event name is none of \<open>connected\<close>,
  \<open>message\<close>, \<open>error\<close>, or the event is \<open>message\<close> and the payload is not
  \<open>null\<close>, its \<open>type\<close> is none of "user", "thinking", "agent" and its \<open>isAgent\<close>
  is falsy.
\<close>

theorem unknown_record_skipped:
  assumes "split (js ''\<newline>\<newline>'') (concat chunks) = pre @ m # post @ [rest]"
    and "scan_lines ([], []) (split (js ''\<newline>'') m) = (eventType, eventData)"
    and "eventData = []
         \<or> (\<exists>data. JSON_parse eventData = Some data
               \<and> (eventType \<notin> {js ''connected'', js ''message'', js ''error''}
                  \<or> (eventType = js ''message'' \<and> \<not> nullish data
                     \<and> get data (js ''type'') \<notin> {Str (js ''user''), Str (js ''thinking''), Str (js ''agent'')}
                     \<and> \<not> truthy (get data (js ''isAgent'')))))"
  shows "sendMessage h cbs (stream chunks) = settle (process_messages h cbs (pre @ post))"
proof -
  have hm: "handle_message h cbs m = ([], None)"
    using handle_message_eq[OF assms(2)] assms(3) by (auto simp: dispatch_def js_def)
  have "split (js ''\<newline>\<newline>'') (concat chunks) = (pre @ m # post) @ [rest]"
    using assms(1) by simp
  then have "sendMessage h cbs (stream chunks) = settle (process_messages h cbs (pre @ m # post))"
    by (rule sendMessage_records)
  then show ?thesis
    using hm
    by (simp add: process_messages_insert process_messages_append split: prod.splits option.splits)
qed

theorem unknown_record_skipped_witness:
  \<open>sendMessage example_host all_callbacks
     (stream [js ''event: foo\<newline>data: {"x":1}\<newline>\<newline>event: connected\<newline>data: {}\<newline>\<newline>''])
   = ([OnStart], Resolved)\<close>
proof -
  have a: \<open>split (js ''\<newline>\<newline>'')
            (concat [js ''event: foo\<newline>data: {"x":1}\<newline>\<newline>event: connected\<newline>data: {}\<newline>\<newline>''])
           = [] @ js ''event: foo\<newline>data: {"x":1}'' # [js ''event: connected\<newline>data: {}''] @ [[]]\<close>
    by code_simp
  have b: \<open>scan_lines ([], []) (split (js ''\<newline>'') (js ''event: foo\<newline>data: {"x":1}''))
           = (js ''foo'', js ''{"x":1}'')\<close>
    by code_simp
  have p: \<open>JSON_parse (js ''{"x":1}'') = Some (Obj [(js ''x'', Num 1 0)])\<close> by code_simp
  have q: \<open>js ''foo'' \<notin> {js ''connected'', js ''message'', js ''error''}\<close> by code_simp
  have c: \<open>js ''{"x":1}'' = []
         \<or> (\<exists>data. JSON_parse (js ''{"x":1}'') = Some data
               \<and> (js ''foo'' \<notin> {js ''connected'', js ''message'', js ''error''}
                  \<or> (js ''foo'' = js ''message'' \<and> \<not> nullish data
                     \<and> get data (js ''type'') \<notin> {Str (js ''user''), Str (js ''thinking''), Str (js ''agent'')}
                     \<and> \<not> truthy (get data (js ''isAgent'')))))\<close>
    using p q by blast
  have g: \<open>settle (process_messages example_host all_callbacks ([] @ [js ''event: connected\<newline>data: {}'']))
           = ([OnStart], Resolved)\<close>
    by code_simp
  show ?thesis
    unfolding unknown_record_skipped[OF a b c] g ..
qed

subsection \<open>C6: the agent's message\<close>




subsection \<open>C7: the attachments\<close>

text \<open>
  As stated, C7 fails in two ways. The guard is \<open>att.url && typeof att.url === "string"\<close>:
  an entry whose \<open>url\<close> is the empty string has a string \<open>url\<close> and is left out. And
  a \<open>null\<close> entry makes \<open>att.url\<close> throw, so no message is built at all.
\<close>

theorem attachment_extraction_counterexample:
  \<open>sendMessage example_host all_callbacks
     (stream [js ''event: message\<newline>data: {"type":"user","id":"u1","content":{"text":"hi","attachments":[{"url":""}]},"createdAt":"2024-01-01T00:00:00Z"}\<newline>\<newline>''])
   = ([OnUserMessage \<lparr> msg_id = Str (js ''u1''), msg_content = Str (js ''hi''),
                        msg_role = User, msg_createdAt = js ''2024-01-01T00:00:00.000Z'',
                        msg_attachments = None \<rparr>],
      Resolved)
   \<and> sendMessage example_host all_callbacks
     (stream [js ''event: message\<newline>data: {"type":"user","id":"u1","content":{"text":"hi","attachments":[null,{"url":"https://x/y.png"}]}}\<newline>\<newline>''])
   = ([], Rejected TypeError)\<close>
  by code_simp

text \<open>
  C7, amended. For every \<open>event: message\<close> record of the user or the agent shape whose
  \<open>content.attachments\<close> is an array without a \<open>null\<close> entry, the attachments of the
  message are exactly the entries whose \<open>url\<close> is a non-empty string, in their order
  (\<open>undefined\<close> when there is none). Each keeps its \<open>url\<close> and \<open>title\<close>; an \<open>id\<close>
  that is missing or falsy becomes "att-" followed by the present time, which is not
  empty; a \<open>contentType\<close> that is missing or falsy becomes "image". An entry with
  only a \<open>url\<close> gives exactly one such attachment.
\<close>

theorem attachment_extraction:
  assumes "scan_lines ([], []) (split (js ''\<newline>'') m) = (js ''message'', eventData)"
    and "eventData \<noteq> []"
    and "JSON_parse eventData = Some data"
    and "get data (js ''type'') = Str (js ''user'')
         \<or> (get data (js ''type'') \<noteq> Str (js ''thinking'')
            \<and> (truthy (get data (js ''isAgent'')) \<or> get data (js ''type'') = Str (js ''agent'')))"
    and "opt_prop (get data (js ''content'')) (js ''attachments'') = Arr xs"
    and "\<forall>a \<in> set xs. \<not> nullish a"
    and "atts = map (make_attachment h)
                  (filter (\<lambda>a. case get a (js ''url'') of Str s \<Rightarrow> s \<noteq> [] | _ \<Rightarrow> False) xs)"
  shows "handle_message h cbs m
           = (call cbs (if get data (js ''type'') = Str (js ''user'')
                        then OnUserMessage (build_message h User data atts)
                        else OnComplete (build_message h Assistant data atts)
                                        \<lparr> tokens = 0, cost = 0 \<rparr>),
              None)
         \<and> msg_attachments (build_message h r data atts) = (if atts = [] then None else Some atts)
         \<and> make_attachment h a
             = \<lparr> att_id = (if truthy (get a (js ''id'')) then get a (js ''id'')
                            else Str (js ''att-'' @ show_int (now h))),
                 att_url = get a (js ''url''),
                 att_title = get a (js ''title''),
                 att_contentType = (if truthy (get a (js ''contentType''))
                                    then get a (js ''contentType'') else Str (js ''image'')) \<rparr>
         \<and> js ''att-'' @ show_int (now h) \<noteq> []"
proof -
  have ex: "extract_attachments h data = Inr atts"
    using extract_attachments_array[OF assms(5,6)] assms(7) by simp
  have hm: "handle_message h cbs m = dispatch h cbs (js ''message'') data"
    by (rule handle_message_parsed[OF assms(1,2,3)])
  have one: "handle_message h cbs m
           = (call cbs (if get data (js ''type'') = Str (js ''user'')
                        then OnUserMessage (build_message h User data atts)
                        else OnComplete (build_message h Assistant data atts)
                                        \<lparr> tokens = 0, cost = 0 \<rparr>),
              None)"
  proof (cases "get data (js ''type'') = Str (js ''user'')")
    case True
    then show ?thesis using hm dispatch_user[OF True] ex by simp
  next
    case False
    with assms(4) have th: "get data (js ''type'') \<noteq> Str (js ''thinking'')"
      and ag: "truthy (get data (js ''isAgent'')) \<or> get data (js ''type'') = Str (js ''agent'')"
      by auto
    show ?thesis using hm dispatch_agent[OF False th ag] ex False by simp
  qed
  have two: "msg_attachments (build_message h r data atts) = (if atts = [] then None else Some atts)"
    by (simp add: build_message_def)
  have three: "make_attachment h a
             = \<lparr> att_id = (if truthy (get a (js ''id'')) then get a (js ''id'')
                            else Str (js ''att-'' @ show_int (now h))),
                 att_url = get a (js ''url''),
                 att_title = get a (js ''title''),
                 att_contentType = (if truthy (get a (js ''contentType''))
                                    then get a (js ''contentType'') else Str (js ''image'')) \<rparr>"
    by (simp add: make_attachment_def or_else_def)
  have four: "js ''att-'' @ show_int (now h) \<noteq> []" by (simp add: js_def)
  from one two three four show ?thesis by blast
qed

theorem attachment_extraction_witness:
  \<open>handle_message example_host all_callbacks
      (js ''event: message\<newline>data: {"type":"user","id":"u1","content":{"text":"look","attachments":[{"url":"https://x/y.png"},{"id":"z"},{"url":7}]}}'')
    = ([OnUserMessage
         \<lparr> msg_id = Str (js ''u1''), msg_content = Str (js ''look''), msg_role = User,
           msg_createdAt = js ''2023-11-14T22:13:20.000Z'',
           msg_attachments =
             Some [\<lparr> att_id = Str (js ''att-1700000000000''), att_url = Str (js ''https://x/y.png''),
                     att_title = Undefined, att_contentType = Str (js ''image'') \<rparr>] \<rparr>],
       None)\<close>
proof -
  let ?m = \<open>js ''event: message\<newline>data: {"type":"user","id":"u1","content":{"text":"look","attachments":[{"url":"https://x/y.png"},{"id":"z"},{"url":7}]}}''\<close>
  let ?ed = \<open>js ''{"type":"user","id":"u1","content":{"text":"look","attachments":[{"url":"https://x/y.png"},{"id":"z"},{"url":7}]}}''\<close>
  let ?xs = \<open>[Obj [(js ''url'', Str (js ''https://x/y.png''))], Obj [(js ''id'', Str (js ''z''))],
              Obj [(js ''url'', Num 7 0)]]\<close>
  let ?data = \<open>Obj [(js ''type'', Str (js ''user'')), (js ''id'', Str (js ''u1'')),
                     (js ''content'', Obj [(js ''text'', Str (js ''look'')), (js ''attachments'', Arr ?xs)])]\<close>
  let ?atts = \<open>[\<lparr> att_id = Str (js ''att-1700000000000''), att_url = Str (js ''https://x/y.png''),
                     att_title = Undefined, att_contentType = Str (js ''image'') \<rparr>]\<close>
  have a: "scan_lines ([], []) (split (js ''\<newline>'') ?m) = (js ''message'', ?ed)" by code_simp
  have b: "?ed \<noteq> []" by code_simp
  have c: "JSON_parse ?ed = Some ?data" by code_simp
  have d: "get ?data (js ''type'') = Str (js ''user'')
         \<or> (get ?data (js ''type'') \<noteq> Str (js ''thinking'')
            \<and> (truthy (get ?data (js ''isAgent'')) \<or> get ?data (js ''type'') = Str (js ''agent'')))"
    by code_simp
  have e: "opt_prop (get ?data (js ''content'')) (js ''attachments'') = Arr ?xs" by code_simp
  have f: "\<forall>a \<in> set ?xs. \<not> nullish a" by code_simp
  have g: "?atts = map (make_attachment example_host)
                  (filter (\<lambda>a. case get a (js ''url'') of Str s \<Rightarrow> s \<noteq> [] | _ \<Rightarrow> False) ?xs)"
    by code_simp
  have v: \<open>(call all_callbacks (if get ?data (js ''type'') = Str (js ''user'')
                        then OnUserMessage (build_message example_host User ?data ?atts)
                        else OnComplete (build_message example_host Assistant ?data ?atts)
                                        \<lparr> tokens = 0, cost = 0 \<rparr>),
              None :: js_error option)
     = ([OnUserMessage
         \<lparr> msg_id = Str (js ''u1''), msg_content = Str (js ''look''), msg_role = User,
           msg_createdAt = js ''2023-11-14T22:13:20.000Z'',
           msg_attachments = Some ?atts \<rparr>],
       None)\<close>
    by code_simp
  from attachment_extraction[OF a b c d e f g, of all_callbacks]
  have "handle_message example_host all_callbacks ?m
           = (call all_callbacks (if get ?data (js ''type'') = Str (js ''user'')
                        then OnUserMessage (build_message example_host User ?data ?atts)
                        else OnComplete (build_message example_host Assistant ?data ?atts)
                                        \<lparr> tokens = 0, cost = 0 \<rparr>),
              None)"
    by blast
  then show ?thesis unfolding v .
qed

subsection \<open>C10: the order of the shapes\<close>




subsection \<open>The calendar\<close>

text \<open>
  \<open>YearFromDay\<close> is the year of the day, as ECMA-262 defines it; the fields of a time
  value are in their ranges; \<open>Date.parse\<close> reads back what \<open>toISOString\<close> prints.
\<close>

lemma DayFromYear_cycles:
  assumes "0 \<le> B" "B \<le> 3" "0 \<le> C" "C \<le> 24" "0 \<le> D" "D \<le> 3"
  shows "DayFromYear (1601 + 400 * A + 100 * B + 4 * C + D)
         = -134774 + 146097 * A + 36524 * B + 1461 * C + 365 * D"
proof -
  have a: "(1601 + 400 * A + 100 * B + 4 * C + D - 1969) div 4 = 100 * A + 25 * B + C - 92"
    using assms by linarith
  have b: "(1601 + 400 * A + 100 * B + 4 * C + D - 1901) div 100 = 4 * A + B - 3"
    using assms by linarith
  have c: "(1601 + 400 * A + 100 * B + 4 * C + D - 1601) div 400 = A"
    using assms by linarith
  show ?thesis unfolding DayFromYear_def a b c by simp
qed

lemma cycle_bounds:
  fixes r :: int
  assumes "0 \<le> r" "r \<le> 146096"
  shows "0 \<le> centuries r" "centuries r \<le> 3"
    and "0 \<le> r - 36524 * centuries r" "r - 36524 * centuries r \<le> 36524"
    and "r - 36524 * centuries r = 36524 \<longrightarrow> centuries r = 3"
    and "0 \<le> years4 r" "years4 r \<le> 24"
    and "0 \<le> years1 r" "years1 r \<le> 3"
proof -
  show b0: "0 \<le> centuries r" using assms by (simp add: centuries_def)
  show b3: "centuries r \<le> 3" by (simp add: centuries_def)
  show r0: "0 \<le> r - 36524 * centuries r"
    using assms unfolding centuries_def min_def by (simp split: if_splits; linarith?)
  show r1: "r - 36524 * centuries r \<le> 36524"
    using assms unfolding centuries_def min_def by (simp split: if_splits; linarith?)
  show "r - 36524 * centuries r = 36524 \<longrightarrow> centuries r = 3"
    using assms unfolding centuries_def min_def by (simp split: if_splits; linarith?)
  show "0 \<le> years4 r" using r0 by (simp add: years4_def)
  show "years4 r \<le> 24" using r1 unfolding years4_def by linarith
  show "0 \<le> years1 r" unfolding years1_def by simp
  show "years1 r \<le> 3" unfolding years1_def by simp
qed

lemma day_within_cycle:
  fixes r :: int
  assumes "0 \<le> r" "r \<le> 146096"
  defines "w \<equiv> r - 36524 * centuries r - 1461 * years4 r - 365 * years1 r"
  shows "0 \<le> w" "w \<le> 365" "w = 365 \<longrightarrow> years1 r = 3"
    and "w = 365 \<longrightarrow> years4 r = 24 \<longrightarrow> centuries r = 3"
proof -
  define r2 where "r2 = r - 36524 * centuries r"
  define r3 where "r3 = r2 mod 1461"
  have r2: "0 \<le> r2" "r2 \<le> 36524" "r2 = 36524 \<longrightarrow> centuries r = 3"
    using cycle_bounds[OF assms(1,2)] by (simp_all add: r2_def)
  have r3: "0 \<le> r3" "r3 \<le> 1460" by (simp_all add: r3_def)
  have r3eq: "r3 = r2 - 1461 * years4 r"
    unfolding r3_def years4_def r2_def by (simp add: minus_mult_div_eq_mod)
  have y1: "years1 r = min 3 (r3 div 365)"
    by (simp add: years1_def r3_def r2_def)
  have w: "w = r3 - 365 * years1 r"
    by (simp add: w_def r3eq r2_def)
  show "0 \<le> w" using r3 unfolding w y1 min_def by (simp split: if_splits; linarith?)
  show "w \<le> 365" using r3 unfolding w y1 min_def by (simp split: if_splits; linarith?)
  show "w = 365 \<longrightarrow> years1 r = 3"
    using r3 unfolding w y1 min_def by (simp split: if_splits; linarith?)
  show "w = 365 \<longrightarrow> years4 r = 24 \<longrightarrow> centuries r = 3"
  proof (intro impI)
    assume a: "w = 365" and b: "years4 r = 24"
    have "r3 = 1460" using a r3 unfolding w y1 min_def by (simp split: if_splits; linarith?)
    then have "r2 = 36524" using r3eq b by simp
    then show "centuries r = 3" using r2(3) by simp
  qed
qed

lemma DaysInYear_ge: "365 \<le> DaysInYear y" "DaysInYear y \<le> 366"
  by (simp_all add: DaysInYear_def)

lemma YearFromDay_spec:
  "DayFromYear (YearFromDay d) \<le> d
   \<and> d < DayFromYear (YearFromDay d) + DaysInYear (YearFromDay d)"
proof -
  define r where "r = (d + 134774) mod 146097"
  define A where "A = (d + 134774) div 146097"
  define B where "B = centuries r"
  define C where "C = years4 r"
  define D where "D = years1 r"
  define w where "w = r - 36524 * B - 1461 * C - 365 * D"
  have r: "0 \<le> r" "r \<le> 146096" by (simp_all add: r_def)
  have d: "d = 146097 * A + r - 134774"
    unfolding r_def A_def by (simp add: mult_div_mod_eq)
  have bd: "0 \<le> B" "B \<le> 3" "0 \<le> C" "C \<le> 24" "0 \<le> D" "D \<le> 3"
    using cycle_bounds[OF r] by (simp_all add: B_def C_def D_def)
  have wb: "0 \<le> w" "w \<le> 365" "w = 365 \<longrightarrow> D = 3" "w = 365 \<longrightarrow> C = 24 \<longrightarrow> B = 3"
    using day_within_cycle[OF r] by (simp_all add: w_def B_def C_def D_def)
  have y: "YearFromDay d = 1601 + 400 * A + 100 * B + 4 * C + D"
    by (simp add: YearFromDay_def r_def A_def B_def C_def D_def)
  have dfy: "DayFromYear (YearFromDay d) = -134774 + 146097 * A + 36524 * B + 1461 * C + 365 * D"
    unfolding y by (rule DayFromYear_cycles[OF bd])
  have dw: "d - DayFromYear (YearFromDay d) = w"
    using dfy d by (simp add: w_def)
  have lo: "DayFromYear (YearFromDay d) \<le> d" using dw wb(1) by linarith
  have hi: "w < DaysInYear (YearFromDay d)"
  proof (cases "w = 365")
    case False
    then have "w \<le> 364" using wb(2) by linarith
    then show ?thesis using DaysInYear_ge(1)[of "YearFromDay d"] by linarith
  next
    case True
    then have D3: "D = 3" and CB: "C = 24 \<longrightarrow> B = 3" using wb by simp_all
    have y4: "YearFromDay d = 4 * (401 + 100 * A + 25 * B + C)"
      unfolding y D3 by simp
    then have m4: "YearFromDay d mod 4 = 0" by simp
    have "DaysInYear (YearFromDay d) = 366"
    proof (cases "YearFromDay d mod 100 = 0")
      case False
      then show ?thesis using m4 by (simp add: DaysInYear_def)
    next
      case True
      have "1601 + 400 * A + 100 * B + 4 * C + 3 = (4 + 4 * C) + 100 * (16 + 4 * A + B)"
        by simp
      then have "(1601 + 400 * A + 100 * B + 4 * C + 3) mod 100 = (4 + 4 * C) mod 100"
        by (simp only: mod_mult_self2)
      with True have z: "(4 + 4 * C) mod 100 = 0" unfolding y D3 by simp
      have "C = 24"
      proof (rule ccontr)
        assume "C \<noteq> 24"
        with bd(3,4) have "0 \<le> 4 + 4 * C" "4 + 4 * C < 100" by linarith+
        then have "(4 + 4 * C) mod 100 = 4 + 4 * C" by simp
        with z bd(3) show False by linarith
      qed
      with CB have "B = 3" by simp
      with \<open>C = 24\<close> have "YearFromDay d = 400 * (5 + A)" unfolding y D3 by simp
      then have "YearFromDay d mod 400 = 0" by simp
      then show ?thesis using m4 True by (simp add: DaysInYear_def)
    qed
    then show ?thesis using True by simp
  qed
  from lo hi dw show ?thesis by linarith
qed

lemma DaysInYear_leap: "DaysInYear y = 365 + InLeapYear y"
  by (simp add: InLeapYear_def DaysInYear_def)

lemma InLeapYear_01: "InLeapYear y = 0 \<or> InLeapYear y = 1"
  by (simp add: InLeapYear_def)

lemma div_bounds:
  fixes a :: int
  assumes "0 < n"
  shows "n * (a div n) \<le> a" "a - (n - 1) \<le> n * (a div n)"
proof -
  have e: "a = n * (a div n) + a mod n" by simp
  have m: "0 \<le> a mod n" "a mod n < n" using assms by simp_all
  show "n * (a div n) \<le> a" using e m(1) by linarith
  show "a - (n - 1) \<le> n * (a div n)" using e m(2) by linarith
qed

lemma DayFromYear_large:
  assumes "275761 \<le> y"
  shows "100000000 < DayFromYear y"
proof -
  define a where "a = (y - 1969) div 4"
  define b where "b = (y - 1901) div 100"
  define c where "c = (y - 1601) div 400"
  have "y - 1972 \<le> 4 * a" "100 * b \<le> y - 1901" "y - 2000 \<le> 400 * c"
    unfolding a_def b_def c_def
    using div_bounds[of 4 "y - 1969"] div_bounds[of 100 "y - 1901"] div_bounds[of 400 "y - 1601"]
    by simp_all
  moreover have "DayFromYear y = 365 * (y - 1970) + a - b + c"
    by (simp add: DayFromYear_def a_def b_def c_def)
  ultimately have "146097 * y - 287811596 \<le> 400 * DayFromYear y" by simp
  moreover have "146097 * 275761 \<le> 146097 * y" using assms by simp
  ultimately show ?thesis by simp
qed

lemma DayFromYear_small:
  assumes "y \<le> -271822"
  shows "DayFromYear y + 366 \<le> -100000000"
proof -
  define a where "a = (y - 1969) div 4"
  define b where "b = (y - 1901) div 100"
  define c where "c = (y - 1601) div 400"
  have "4 * a \<le> y - 1969" "y - 2000 \<le> 100 * b" "400 * c \<le> y - 1601"
    unfolding a_def b_def c_def
    using div_bounds[of 4 "y - 1969"] div_bounds[of 100 "y - 1901"] div_bounds[of 400 "y - 1601"]
    by simp_all
  moreover have "DayFromYear y = 365 * (y - 1970) + a - b + c"
    by (simp add: DayFromYear_def a_def b_def c_def)
  ultimately have "400 * DayFromYear y \<le> 146097 * y - 287810501" by simp
  moreover have "146097 * y \<le> 146097 * (-271822)" using assms by simp
  ultimately show ?thesis by simp
qed

lemma Day_range: "valid_time t \<Longrightarrow> -100000000 \<le> Day t \<and> Day t \<le> 100000000"
  unfolding valid_time_def Day_def by linarith

lemma YearFromTime_range:
  assumes "valid_time t"
  shows "-271821 \<le> YearFromTime t" "YearFromTime t \<le> 275760"
proof -
  note s = YearFromDay_spec[of "Day t"]
  note d = Day_range[OF assms]
  show "-271821 \<le> YearFromTime t"
  proof (rule ccontr)
    assume "\<not> -271821 \<le> YearFromTime t"
    then have "YearFromDay (Day t) \<le> -271822" by (simp add: YearFromTime_def)
    from DayFromYear_small[OF this] s d DaysInYear_ge(2)[of "YearFromDay (Day t)"]
    show False by linarith
  qed
  show "YearFromTime t \<le> 275760"
  proof (rule ccontr)
    assume "\<not> YearFromTime t \<le> 275760"
    then have "275761 \<le> YearFromDay (Day t)" by (simp add: YearFromTime_def)
    from DayFromYear_large[OF this] s d show False by linarith
  qed
qed

lemma DayWithinYear_range:
  "0 \<le> DayWithinYear t" "DayWithinYear t < 365 + InLeapYear (YearFromTime t)"
  using YearFromDay_spec[of "Day t"] DaysInYear_leap[of "YearFromDay (Day t)"]
  by (simp_all add: DayWithinYear_def YearFromTime_def)

lemma MonthFromDay_range:
  assumes "L = 0 \<or> L = 1" "0 \<le> d" "d < 365 + L"
  shows "0 \<le> MonthFromDay L d" "MonthFromDay L d \<le> 11"
    and "MonthStart L (MonthFromDay L d) \<le> d"
    and "d < MonthStart L (MonthFromDay L d + 1)"
  using assms unfolding MonthFromDay_def MonthStart_def by auto

lemma month_date_range:
  "0 \<le> MonthFromTime t" "MonthFromTime t \<le> 11"
  "1 \<le> DateFromTime t"
  "DateFromTime t \<le> DaysInMonth (YearFromTime t) (MonthFromTime t + 1)"
proof -
  note r = MonthFromDay_range[OF InLeapYear_01[of "YearFromTime t"] DayWithinYear_range[of t]]
  show "0 \<le> MonthFromTime t" "MonthFromTime t \<le> 11"
    using r(1,2) by (simp_all add: MonthFromTime_def)
  show "1 \<le> DateFromTime t"
    using r(3) by (simp add: DateFromTime_def MonthFromTime_def)
  show "DateFromTime t \<le> DaysInMonth (YearFromTime t) (MonthFromTime t + 1)"
    using r(4) by (simp add: DateFromTime_def MonthFromTime_def DaysInMonth_def)
qed

lemma DaysInMonth_le: "DaysInMonth y m \<le> 31"
  using InLeapYear_01[of y] unfolding DaysInMonth_def MonthStart_def by auto

lemma digits_val_snoc: "digits_val acc (xs @ [c]) = digits_val acc xs * 10 + int (c - 48)"
  by (induction xs arbitrary: acc) simp_all

lemma digit_ok:
  "0 \<le> d \<Longrightarrow> d \<le> 9 \<Longrightarrow> is_digit (48 + nat d) \<and> int (48 + nat d - 48) = d"
  by (simp add: is_digit_def)

lemma digit_mod:
  "is_digit (48 + nat (n mod 10)) \<and> int (48 + nat (n mod 10) - 48) = n mod 10"
  by (rule digit_ok) simp_all

lemma pad2_snoc: "pad2 n = [48 + nat (n div 10 mod 10)] @ [48 + nat (n mod 10)]"
  by (simp add: pad2_def)

lemma div_div_10: "(n :: int) div 10 div 10 = n div 100" "n div 10 div 100 = n div 1000"
  "n div 10 div 1000 = n div 10000" "n div 10 div 10000 = n div 100000"
  by (simp_all add: zdiv_zmult2_eq[symmetric])

lemma div_div_100: "(n :: int) div 100 div 10 = n div 1000" "n div 100 div 100 = n div 10000"
  "n div 100 div 1000 = n div 100000"
  by (simp_all add: zdiv_zmult2_eq[symmetric])

lemma pad3_snoc: "pad3 n = pad2 (n div 10) @ [48 + nat (n mod 10)]"
  by (simp add: pad3_def pad2_def div_div_10)

lemma pad4_snoc: "pad4 n = pad3 (n div 10) @ [48 + nat (n mod 10)]"
  by (simp add: pad4_def pad3_def div_div_10)

lemma pad6_snoc:
  "pad6 n = (pad4 (n div 10 div 10) @ [48 + nat (n div 10 mod 10)]) @ [48 + nat (n mod 10)]"
  by (simp add: pad6_def pad4_def pad3_def div_div_10 div_div_100)

lemma pad2_digits:
  assumes "0 \<le> n" "n \<le> 99"
  shows "list_all is_digit (pad2 n)" "digits_val 0 (pad2 n) = n"
proof -
  have "0 \<le> n div 10" "n div 10 \<le> 9" using assms by linarith+
  then have m: "n div 10 mod 10 = n div 10" by simp
  show "list_all is_digit (pad2 n)"
    using digit_mod[of n] digit_mod[of "n div 10"] by (simp add: pad2_snoc)
  show "digits_val 0 (pad2 n) = n"
    using digit_mod[of n] digit_mod[of "n div 10"] m by (simp add: pad2_snoc)
qed

lemma pad3_digits:
  assumes "0 \<le> n" "n \<le> 999"
  shows "list_all is_digit (pad3 n)" "digits_val 0 (pad3 n) = n"
proof -
  have r: "0 \<le> n div 10" "n div 10 \<le> 99" using assms by linarith+
  show "list_all is_digit (pad3 n)"
    using digit_mod[of n] pad2_digits(1)[OF r] by (simp add: pad3_snoc)
  show "digits_val 0 (pad3 n) = n"
    unfolding pad3_snoc digits_val_snoc pad2_digits(2)[OF r]
    using digit_mod[of n] by simp
qed

lemma pad4_digits:
  assumes "0 \<le> n" "n \<le> 9999"
  shows "list_all is_digit (pad4 n)" "digits_val 0 (pad4 n) = n"
proof -
  have r: "0 \<le> n div 10" "n div 10 \<le> 999" using assms by linarith+
  show "list_all is_digit (pad4 n)"
    using digit_mod[of n] pad3_digits(1)[OF r] by (simp add: pad4_snoc)
  show "digits_val 0 (pad4 n) = n"
    unfolding pad4_snoc digits_val_snoc pad3_digits(2)[OF r]
    using digit_mod[of n] by simp
qed

lemma pad6_digits:
  assumes "0 \<le> n" "n \<le> 999999"
  shows "list_all is_digit (pad6 n)" "digits_val 0 (pad6 n) = n"
proof -
  have r: "0 \<le> n div 10 div 10" "n div 10 div 10 \<le> 9999" using assms by linarith+
  show "list_all is_digit (pad6 n)"
    using digit_mod[of n] digit_mod[of "n div 10"] pad4_digits(1)[OF r] by (simp add: pad6_snoc)
  show "digits_val 0 (pad6 n) = n"
    unfolding pad6_snoc digits_val_snoc pad4_digits(2)[OF r]
    using digit_mod[of n] digit_mod[of "n div 10"] by simp
qed

lemma pad_length: "length (pad2 n) = 2" "length (pad3 n) = 3" "length (pad4 n) = 4"
  "length (pad6 n) = 6"
  by (simp_all add: pad2_def pad3_def pad4_def pad6_def)

lemma pad_digits:
  "0 \<le> n \<Longrightarrow> n \<le> 99 \<Longrightarrow> digits (pad2 n) = Some n"
  "0 \<le> n \<Longrightarrow> n \<le> 999 \<Longrightarrow> digits (pad3 n) = Some n"
  "0 \<le> n \<Longrightarrow> n \<le> 9999 \<Longrightarrow> digits (pad4 n) = Some n"
  "0 \<le> n \<Longrightarrow> n \<le> 999999 \<Longrightarrow> digits (pad6 n) = Some n"
  using pad2_digits[of n] pad3_digits[of n] pad4_digits[of n] pad6_digits[of n] pad_length[of n]
  unfolding digits_def by auto

lemma pad4_head: "take 1 (pad4 n @ r) \<noteq> js ''+''" "take 1 (pad4 n @ r) \<noteq> js ''-''"
  by (simp_all add: pad4_def js_def)

lemma parse_year_string:
  assumes "-999999 \<le> y" "y \<le> 999999"
  shows "parse_year (year_string y @ rest) = Some (y, rest)"
proof -
  consider "0 \<le> y \<and> y \<le> 9999" | "y < 0" | "9999 < y" by linarith
  then show ?thesis
  proof cases
    case 1
    then have "digits (pad4 y) = Some y" by (simp add: pad_digits)
    with 1 show ?thesis
      using pad4_head[of y rest] by (simp add: parse_year_def year_string_def pad_length)
  next
    case 2
    then have "digits (pad6 (- y)) = Some (- y)" using assms by (simp add: pad_digits)
    with 2 show ?thesis
      by (simp add: parse_year_def year_string_def pad_length js_def)
  next
    case 3
    then have "digits (pad6 y) = Some y" using assms by (simp add: pad_digits)
    with 3 show ?thesis
      by (simp add: parse_year_def year_string_def pad_length js_def)
  qed
qed

lemma parse_fields_shape:
  "parse_fields y ([45, a1, a2, 45, b1, b2, 84, c1, c2, 58, d1, d2, 58, e1, e2, 46, f1, f2, f3, 90])
   = (case (digits [a1, a2], digits [b1, b2], digits [c1, c2], digits [d1, d2], digits [e1, e2],
            digits [f1, f2, f3]) of
        (Some mo, Some d, Some hh, Some mi, Some ss, Some ms) \<Rightarrow>
          if 1 \<le> mo \<and> mo \<le> 12 \<and> 1 \<le> d \<and> d \<le> DaysInMonth y mo
             \<and> hh \<le> 23 \<and> mi \<le> 59 \<and> ss \<le> 59
          then Some (MakeDate (MakeDay y mo d) hh mi ss ms)
          else None
      | _ \<Rightarrow> None)"
  by (simp add: parse_fields_def parse_fraction_def js_def)

lemma pad2_list: "\<exists>a b. pad2 n = [a, b]"
  by (simp add: pad2_def)

lemma pad3_list: "\<exists>a b c. pad3 n = [a, b, c]"
  by (simp add: pad3_def)

lemma parse_fields_pads:
  assumes "1 \<le> mo" "mo \<le> 12" "1 \<le> d" "d \<le> DaysInMonth y mo"
      "0 \<le> hh" "hh \<le> 23" "0 \<le> mi" "mi \<le> 59" "0 \<le> ss" "ss \<le> 59" "0 \<le> ms" "ms \<le> 999"
  shows "parse_fields y (js ''-'' @ pad2 mo @ js ''-'' @ pad2 d @ js ''T'' @ pad2 hh @ js '':''
           @ pad2 mi @ js '':'' @ pad2 ss @ js ''.'' @ pad3 ms @ js ''Z'')
         = Some (MakeDate (MakeDay y mo d) hh mi ss ms)"
proof -
  have d31: "d \<le> 99" using assms(4) DaysInMonth_le[of y mo] by linarith
  obtain a1 a2 where a: "pad2 mo = [a1, a2]" using pad2_list by blast
  obtain b1 b2 where b: "pad2 d = [b1, b2]" using pad2_list by blast
  obtain c1 c2 where c: "pad2 hh = [c1, c2]" using pad2_list by blast
  obtain d1 d2 where d: "pad2 mi = [d1, d2]" using pad2_list by blast
  obtain e1 e2 where e: "pad2 ss = [e1, e2]" using pad2_list by blast
  obtain f1 f2 f3 where f: "pad3 ms = [f1, f2, f3]" using pad3_list by blast
  have g: "digits [a1, a2] = Some mo" "digits [b1, b2] = Some d" "digits [c1, c2] = Some hh"
    "digits [d1, d2] = Some mi" "digits [e1, e2] = Some ss" "digits [f1, f2, f3] = Some ms"
    using assms d31 pad_digits(1)[of mo] pad_digits(1)[of d] pad_digits(1)[of hh]
      pad_digits(1)[of mi] pad_digits(1)[of ss] pad_digits(2)[of ms]
    unfolding a b c d e f by simp_all
  have s: "js ''-'' @ pad2 mo @ js ''-'' @ pad2 d @ js ''T'' @ pad2 hh @ js '':''
           @ pad2 mi @ js '':'' @ pad2 ss @ js ''.'' @ pad3 ms @ js ''Z''
        = [45, a1, a2, 45, b1, b2, 84, c1, c2, 58, d1, d2, 58, e1, e2, 46, f1, f2, f3, 90]"
    unfolding a b c d e f by (simp add: js_def)
  show ?thesis
    unfolding s parse_fields_shape g using assms by simp
qed

lemma time_fields:
  "0 \<le> HourFromTime t" "HourFromTime t \<le> 23" "0 \<le> MinFromTime t" "MinFromTime t \<le> 59"
  "0 \<le> SecFromTime t" "SecFromTime t \<le> 59" "0 \<le> msFromTime t" "msFromTime t \<le> 999"
  by (simp_all add: HourFromTime_def MinFromTime_def SecFromTime_def msFromTime_def)

lemma MakeDay_fields:
  "MakeDay (YearFromTime t) (MonthFromTime t + 1) (DateFromTime t) = Day t"
  by (simp add: MakeDay_def DateFromTime_def DayWithinYear_def)

lemma MakeDate_fields:
  "MakeDate (Day t) (HourFromTime t) (MinFromTime t) (SecFromTime t) (msFromTime t) = t"
proof -
  define q1 where "q1 = t div 1000"
  define q2 where "q2 = q1 div 60"
  define q3 where "q3 = q2 div 60"
  define q4 where "q4 = q3 div 24"
  define r1 where "r1 = t mod 1000"
  define r2 where "r2 = q1 mod 60"
  define r3 where "r3 = q2 mod 60"
  define r4 where "r4 = q3 mod 24"
  have a: "t = q1 * 1000 + r1" by (simp add: q1_def r1_def)
  have b: "q1 = q2 * 60 + r2" by (simp add: q2_def r2_def)
  have c: "q2 = q3 * 60 + r3" by (simp add: q3_def r3_def)
  have d: "q3 = q4 * 24 + r4" by (simp add: q4_def r4_def)
  have e2: "q2 = t div 60000"
    unfolding q2_def q1_def by (simp add: zdiv_zmult2_eq[symmetric])
  have e3: "q3 = t div 3600000"
    unfolding q3_def e2 by (simp add: zdiv_zmult2_eq[symmetric])
  have e4: "q4 = t div 86400000"
    unfolding q4_def e3 by (simp add: zdiv_zmult2_eq[symmetric])
  have f: "MakeDate (Day t) (HourFromTime t) (MinFromTime t) (SecFromTime t) (msFromTime t)
      = q4 * 86400000 + r4 * 3600000 + r3 * 60000 + r2 * 1000 + r1"
    by (simp only: MakeDate_def Day_def HourFromTime_def MinFromTime_def SecFromTime_def
        msFromTime_def e2[symmetric] e3[symmetric] e4[symmetric] q1_def[symmetric]
        r1_def r2_def r3_def r4_def)
  show ?thesis unfolding f using a b c d by linarith
qed

lemma toISOString_round_trip:
  assumes "valid_time t"
  shows "parse_iso (toISOString t) = Some t"
proof -
  note y = YearFromTime_range[OF assms]
  have py: "parse_year (toISOString t)
      = Some (YearFromTime t, js ''-'' @ pad2 (MonthFromTime t + 1) @ js ''-''
     @ pad2 (DateFromTime t) @ js ''T'' @ pad2 (HourFromTime t) @ js '':''
     @ pad2 (MinFromTime t) @ js '':'' @ pad2 (SecFromTime t) @ js ''.''
     @ pad3 (msFromTime t) @ js ''Z'')"
    unfolding toISOString_def by (rule parse_year_string) (use y in linarith)+
  have m: "1 \<le> MonthFromTime t + 1" "MonthFromTime t + 1 \<le> 12"
    using month_date_range(1,2)[of t] by linarith+
  show ?thesis
    unfolding parse_iso_def py option.case prod.case
      parse_fields_pads[OF m month_date_range(3,4) time_fields] MakeDay_fields MakeDate_fields ..
qed

subsection \<open>C8: the time stamp of a message\<close>

lemma new_Date_valid: "new_Date h v = Time (Some t) \<Longrightarrow> valid_time t"
  by (auto simp: new_Date_def clip_def TimeClip_def valid_time_def
      split: jsval.splits option.splits date_result.splits if_splits)

lemma safeToISOString_cases:
  "safeToISOString h v = toISOString (now h)
   \<or> (\<exists>t. truthy v \<and> new_Date h v = Time (Some t) \<and> safeToISOString h v = toISOString t)"
  by (auto simp: safeToISOString_def split: date_result.splits option.splits)

text \<open>
  C8. Timestamp normalization. The present time being a time value, as the host's clock
  always is: for every value, \<open>safeToISOString\<close> returns the ISO timestamp of a time
  value, a string that \<open>Date.parse\<close> reads back as that time; it is a function of the
  value, so it raises nothing (what \<open>new Date\<close> throws is caught). When the record's
  \<open>createdAt\<close> is missing or \<open>null\<close>, or \<open>new Date\<close> makes an invalid date of it
  or throws, the message's \<open>createdAt\<close> is the timestamp of the present time. When the
  value is truthy and \<open>new Date\<close> makes a valid date of it, the result is that date's
  timestamp.
\<close>

theorem timestamp_normalization:
  assumes "valid_time (now h)"
  shows "(\<exists>t. valid_time t \<and> safeToISOString h v = toISOString t
              \<and> parse_iso (safeToISOString h v) = Some t)
       \<and> (get data (js ''createdAt'') = Undefined \<or> get data (js ''createdAt'') = Null
            \<or> new_Date h (get data (js ''createdAt'')) = Threw
            \<or> new_Date h (get data (js ''createdAt'')) = Time None
          \<longrightarrow> msg_createdAt (build_message h r data atts) = toISOString (now h))
       \<and> (truthy v \<longrightarrow> new_Date h v = Time (Some u) \<longrightarrow> safeToISOString h v = toISOString u)"
proof -
  have one: "\<exists>t. valid_time t \<and> safeToISOString h v = toISOString t
              \<and> parse_iso (safeToISOString h v) = Some t"
    using safeToISOString_cases[of h v]
  proof
    assume a: "safeToISOString h v = toISOString (now h)"
    show ?thesis
      using assms a toISOString_round_trip[OF assms] by auto
  next
    assume "\<exists>t. truthy v \<and> new_Date h v = Time (Some t) \<and> safeToISOString h v = toISOString t"
    then obtain t where t: "new_Date h v = Time (Some t)" "safeToISOString h v = toISOString t"
      by blast
    have "valid_time t" by (rule new_Date_valid[OF t(1)])
    then show ?thesis using t(2) toISOString_round_trip[of t] by auto
  qed
  have two: "get data (js ''createdAt'') = Undefined \<or> get data (js ''createdAt'') = Null
            \<or> new_Date h (get data (js ''createdAt'')) = Threw
            \<or> new_Date h (get data (js ''createdAt'')) = Time None
          \<longrightarrow> msg_createdAt (build_message h r data atts) = toISOString (now h)"
    by (auto simp: build_message_def safeToISOString_def)
  have three: "truthy v \<longrightarrow> new_Date h v = Time (Some u) \<longrightarrow> safeToISOString h v = toISOString u"
    by (simp add: safeToISOString_def)
  from one two three show ?thesis by blast
qed

theorem timestamp_normalization_witness:
  \<open>valid_time (now example_host)
   \<and> msg_createdAt (build_message example_host Assistant
         (Obj [(js ''id'', Str (js ''m1'')), (js ''createdAt'', Str (js ''not-a-date''))]) [])
       = js ''2023-11-14T22:13:20.000Z''
   \<and> safeToISOString example_host (Str (js ''2024-01-01T00:00:00Z''))
       = js ''2024-01-01T00:00:00.000Z''\<close>
proof -
  let ?data = \<open>Obj [(js ''id'', Str (js ''m1'')), (js ''createdAt'', Str (js ''not-a-date''))]\<close>
  have v: "valid_time (now example_host)" by code_simp
  have n: "new_Date example_host (get ?data (js ''createdAt'')) = Time None" by code_simp
  have p: "truthy (Str (js ''2024-01-01T00:00:00Z''))" by code_simp
  have q: "new_Date example_host (Str (js ''2024-01-01T00:00:00Z'')) = Time (Some 1704067200000)"
    by code_simp
  have s: "toISOString (now example_host) = js ''2023-11-14T22:13:20.000Z''" by code_simp
  have t: "toISOString 1704067200000 = js ''2024-01-01T00:00:00.000Z''" by code_simp
  note th = timestamp_normalization[OF v, where data = ?data and r = Assistant and atts = "[]"
      and v = \<open>Str (js ''2024-01-01T00:00:00Z'')\<close> and u = 1704067200000]
  from th n have one: "msg_createdAt (build_message example_host Assistant ?data [])
      = toISOString (now example_host)" by blast
  from th p q have two: "safeToISOString example_host (Str (js ''2024-01-01T00:00:00Z''))
      = toISOString 1704067200000" by blast
  from v one two show ?thesis unfolding s t by blast
qed

end
